theory Spec2Isabelle
  imports Main
begin

section \<open>Values exchanged with the collaborators\<close>

text \<open>
  The exceptions the manager can surface: a failed decryption, \<open>datetime.strptime\<close>
  rejecting a string (ValueError), and a value of the wrong Python type reaching
  \<open>datetime.strptime\<close> or \<open>json.dumps\<close> (TypeError).
\<close>

datatype error = DecryptionError | ValueError | TypeError

text \<open>
  The value stored under the key \<open>'mDate'\<close> of a settings dictionary: a string, or a
  \<open>datetime\<close> object (what \<open>datetime.now()\<close> returns). The type \<open>'t\<close> is Python's
  \<open>datetime\<close>, of which only the order is used.
\<close>

datatype 't pyval = PyStr string | PyDateTime 't

text \<open>
  A settings dictionary (the spec's RecordData): the keys \<open>'domain'\<close> and \<open>'mDate'\<close>, the
  optional key \<open>'deleted'\<close>, and the remaining keys, which only PasswordSetting reads
  and writes, as one optional opaque value.
\<close>

record ('t, 'p) record_data =
  rd_domain :: string
  rd_mDate :: "'t pyval"
  rd_deleted :: "bool option"
  rd_fields :: "'p option"

text \<open>The same dictionary as JSON text: a \<open>datetime\<close> object has no JSON form.\<close>

record 'p json_entry =
  js_domain :: string
  js_mDate :: string
  js_deleted :: "bool option"
  js_fields :: "'p option"

text \<open>
  \<open>datetime.strptime(v, "%Y-%m-%dT%H:%M:%S")\<close>. The parser of the Python library is the
  parameter \<open>parse\<close> (\<open>None\<close> where the library raises ValueError); an argument that is
  not a string raises TypeError.
\<close>

definition strptime :: "(string \<Rightarrow> 't option) \<Rightarrow> 't pyval \<Rightarrow> error + 't" where
  "strptime parse v =
     (case v of
        PyStr s \<Rightarrow> (case parse s of None \<Rightarrow> Inl ValueError | Some t \<Rightarrow> Inr t)
      | PyDateTime t \<Rightarrow> Inl TypeError)"

text \<open>\<open>json.dumps\<close> of a list of settings dictionaries, and \<open>json.loads\<close> of its text.\<close>

definition json_dumps_entry :: "('t, 'p) record_data \<Rightarrow> error + 'p json_entry" where
  "json_dumps_entry d =
     (case rd_mDate d of
        PyStr s \<Rightarrow> Inr \<lparr>js_domain = rd_domain d, js_mDate = s,
                        js_deleted = rd_deleted d, js_fields = rd_fields d\<rparr>
      | PyDateTime t \<Rightarrow> Inl TypeError)"

fun json_dumps :: "('t, 'p) record_data list \<Rightarrow> error + 'p json_entry list" where
  "json_dumps [] = Inr []"
| "json_dumps (d # ds) =
     (case json_dumps_entry d of
        Inl e \<Rightarrow> Inl e
      | Inr j \<Rightarrow> (case json_dumps ds of Inl e \<Rightarrow> Inl e | Inr js \<Rightarrow> Inr (j # js)))"

definition json_loads_entry :: "'p json_entry \<Rightarrow> ('t, 'p) record_data" where
  "json_loads_entry j =
     \<lparr>rd_domain = js_domain j, rd_mDate = PyStr (js_mDate j),
      rd_deleted = js_deleted j, rd_fields = js_fields j\<rparr>"

definition json_loads :: "'p json_entry list \<Rightarrow> ('t, 'p) record_data list" where
  "json_loads js = map json_loads_entry js"

text \<open>
  Modelled from the spec: the classes Crypter and Packer and the base64 transport coding are
  not part of the sources at hand. The spec's SecureCodec contract is all that is
  used: \<open>decrypt\<close> returns what \<open>encrypt\<close> was given under the same password and fails with a
  DecryptionError on a wrong key or on corrupt input. The encrypted, compressed and
  encoded bytes are a symbolic value.
\<close>

datatype 'a cipher = Encrypted string 'a | Corrupt

definition encrypt :: "string \<Rightarrow> 'a \<Rightarrow> 'a cipher" where
  "encrypt password x = Encrypted password x"

definition decrypt :: "string \<Rightarrow> 'a cipher \<Rightarrow> error + 'a" where
  "decrypt password c =
     (case c of
        Encrypted key x \<Rightarrow> if key = password then Inr x else Inl DecryptionError
      | Corrupt \<Rightarrow> Inl DecryptionError)"

section \<open>PasswordSetting\<close>

text \<open>
  Modelled from the spec: the class PasswordSetting is not part of the sources at hand. The
  spec's Record has a domain, the timestamp of the last modification, the synced flag and
  opaque policy fields that are copied as one payload.
\<close>

record ('t, 'p) PasswordSetting =
  domain :: string
  m_date :: 't
  synced :: bool
  policy :: 'p

text \<open>
  Modelled from the spec: the constructor \<open>PasswordSetting(domain)\<close> creates a record "with a
  generated/default state". That state is the parameter \<open>dflt\<close>; the constructor sets the
  domain.
\<close>

definition PasswordSetting_new ::
  "('t, 'p) PasswordSetting \<Rightarrow> string \<Rightarrow> ('t, 'p) PasswordSetting" where
  "PasswordSetting_new dflt dname = dflt\<lparr>domain := dname\<rparr>"

text \<open>
  Modelled from the spec: \<open>to_dict\<close> is the RecordCodec's toData. The dictionary has the
  domain, the modification date as a string (the library's \<open>strftime\<close> is the parameter
  \<open>fmt\<close>), the opaque fields, and no key \<open>'deleted'\<close>.
\<close>

definition to_dict :: "('t \<Rightarrow> string) \<Rightarrow> ('t, 'p) PasswordSetting \<Rightarrow> ('t, 'p) record_data" where
  "to_dict fmt s =
     \<lparr>rd_domain = domain s, rd_mDate = PyStr (fmt (m_date s)),
      rd_deleted = None, rd_fields = Some (policy s)\<rparr>"

text \<open>
  Modelled from the spec: \<open>load_from_dict\<close> is the RecordCodec's applyData, an "in-place field
  overwrite preserving domain": the modification date is parsed from \<open>'mDate'\<close> and the
  opaque fields that the dictionary has replace the record's.
\<close>

definition load_from_dict ::
  "(string \<Rightarrow> 't option) \<Rightarrow> ('t, 'p) PasswordSetting \<Rightarrow> ('t, 'p) record_data
     \<Rightarrow> error + ('t, 'p) PasswordSetting" where
  "load_from_dict parse s d =
     (case strptime parse (rd_mDate d) of
        Inl e \<Rightarrow> Inl e
      | Inr t \<Rightarrow> Inr (s\<lparr>m_date := t,
                        policy := (case rd_fields d of None \<Rightarrow> policy s | Some p \<Rightarrow> p)\<rparr>))"

text \<open>
  Modelled from the spec: \<open>set_synced\<close> sets the synced flag of the record and nothing else.
\<close>

definition set_synced :: "bool \<Rightarrow> ('t, 'p) PasswordSetting \<Rightarrow> ('t, 'p) PasswordSetting" where
  "set_synced b s = s\<lparr>synced := b\<rparr>"

section \<open>PasswordSettingsManager\<close>

text \<open>
  The manager object: the path of the settings file, the remote data of the last import
  (\<open>None\<close> until the first one) and the list of settings. Every element of the list is an
  object of its own. The file system is a map from paths to file contents.
\<close>

record ('t, 'p) manager =
  settings_file :: string
  remote_data :: "('t, 'p) record_data list option"
  settings :: "('t, 'p) PasswordSetting list"

type_synonym 'p saved_file = "('p json_entry list \<times> string list) cipher"

type_synonym 'p blob = "'p json_entry list cipher"

definition init_manager :: "string \<Rightarrow> ('t, 'p) manager" where
  "init_manager path = \<lparr>settings_file = path, remote_data = None, settings = []\<rparr>"

text \<open>\<open>list.pop(i)\<close> for an index in range.\<close>

definition pop :: "nat \<Rightarrow> 'a list \<Rightarrow> 'a list" where
  "pop i xs = take i xs @ drop (Suc i) xs"

text \<open>The invariant of the spec: at most one record per domain.\<close>

definition one_per_domain :: "('t, 'p) PasswordSetting list \<Rightarrow> bool" where
  "one_per_domain ss = distinct (map domain ss)"

subsection \<open>load_settings_from_file\<close>

text \<open>
  The \<open>while\<close> loop of lines 38 to 45 for one saved dictionary: \<open>i\<close> is the index, \<open>ss\<close> the
  list \<open>self.settings\<close>, \<open>found\<close> the flag. An exception leaves the list as it is then.
\<close>

function load_scan ::
  "(string \<Rightarrow> 't option) \<Rightarrow> string list \<Rightarrow> ('t::linorder, 'p) record_data \<Rightarrow> nat
     \<Rightarrow> ('t, 'p) PasswordSetting list \<Rightarrow> bool
     \<Rightarrow> (error \<times> ('t, 'p) PasswordSetting list) + (('t, 'p) PasswordSetting list \<times> bool)" where
  "load_scan parse syn d i ss found =
     (if i < length ss then
        (if domain (ss ! i) = rd_domain d then
           (case strptime parse (rd_mDate d) of
              Inl e \<Rightarrow> Inl (e, ss)
            | Inr t \<Rightarrow>
                if t > m_date (ss ! i) then
                  (case load_from_dict parse (ss ! i) d of
                     Inl e \<Rightarrow> Inl (e, ss)
                   | Inr s' \<Rightarrow>
                       load_scan parse syn d (i + 1)
                         (ss[i := set_synced (domain s' \<in> set syn) s']) True)
                else load_scan parse syn d (i + 1) ss True)
         else load_scan parse syn d (i + 1) ss found)
      else Inr (ss, found))"
  by pat_completeness auto
termination
  by (relation "measure (\<lambda>(parse, syn, d, i, ss, found). length ss - i)") auto

declare load_scan.simps [simp del]

text \<open>
  The body of the \<open>for\<close> loop of lines 35 to 50 for one saved dictionary. \<open>dflt\<close> is the
  generated state of the object that line 47 constructs.
\<close>

definition load_entry ::
  "(string \<Rightarrow> 't option) \<Rightarrow> ('t, 'p) PasswordSetting \<Rightarrow> string list
     \<Rightarrow> ('t::linorder, 'p) record_data \<Rightarrow> ('t, 'p) PasswordSetting list
     \<Rightarrow> (error \<times> ('t, 'p) PasswordSetting list) + ('t, 'p) PasswordSetting list" where
  "load_entry parse dflt syn d ss =
     (case load_scan parse syn d 0 ss False of
        Inl err \<Rightarrow> Inl err
      | Inr (ss', found) \<Rightarrow>
          if \<not> found then
            (case load_from_dict parse (PasswordSetting_new dflt (rd_domain d)) d of
               Inl e \<Rightarrow> Inl (e, ss')
             | Inr new_setting \<Rightarrow>
                 Inr (ss' @ [set_synced (domain new_setting \<in> set syn) new_setting]))
          else Inr ss')"

text \<open>
  The \<open>for\<close> loop over the saved dictionaries; \<open>gen k\<close> is the generated state for the
  \<open>k\<close>-th of them.
\<close>

fun load_loop ::
  "(string \<Rightarrow> 't option) \<Rightarrow> (nat \<Rightarrow> ('t, 'p) PasswordSetting) \<Rightarrow> string list \<Rightarrow> nat
     \<Rightarrow> ('t::linorder, 'p) record_data list \<Rightarrow> ('t, 'p) PasswordSetting list
     \<Rightarrow> (error \<times> ('t, 'p) PasswordSetting list) + ('t, 'p) PasswordSetting list" where
  "load_loop parse gen syn k [] ss = Inr ss"
| "load_loop parse gen syn k (d # ds) ss =
     (case load_entry parse (gen k) syn d ss of
        Inl err \<Rightarrow> Inl err
      | Inr ss' \<Rightarrow> load_loop parse gen syn (k + 1) ds ss')"

text \<open>
  Lines 31 to 51: nothing happens without a file; a file that does not decrypt raises
  before the settings are touched.
\<close>

definition load_settings_from_file ::
  "(string \<Rightarrow> 't option) \<Rightarrow> (nat \<Rightarrow> ('t, 'p) PasswordSetting) \<Rightarrow> (string \<rightharpoonup> 'p saved_file)
     \<Rightarrow> string \<Rightarrow> ('t::linorder, 'p) manager \<Rightarrow> (error + unit) \<times> ('t, 'p) manager" where
  "load_settings_from_file parse gen fs password m =
     (case fs (settings_file m) of
        None \<Rightarrow> (Inr (), m)
      | Some bytes \<Rightarrow>
          (case decrypt password bytes of
             Inl e \<Rightarrow> (Inl e, m)
           | Inr (saved, syn) \<Rightarrow>
               (case load_loop parse gen syn 0 (json_loads saved) (settings m) of
                  Inl (e, ss) \<Rightarrow> (Inl e, m\<lparr>settings := ss\<rparr>)
                | Inr ss \<Rightarrow> (Inr (), m\<lparr>settings := ss\<rparr>))))"

subsection \<open>get_setting, save_setting, delete_setting\<close>

definition get_setting ::
  "('t, 'p) PasswordSetting \<Rightarrow> string \<Rightarrow> ('t, 'p) manager
     \<Rightarrow> ('t, 'p) PasswordSetting \<times> ('t, 'p) manager" where
  "get_setting dflt dname m =
     (case find (\<lambda>setting. domain setting = dname) (settings m) of
        Some setting \<Rightarrow> (setting, m)
      | None \<Rightarrow>
          (let setting = PasswordSetting_new dflt dname
           in (setting, m\<lparr>settings := settings m @ [setting]\<rparr>)))"

text \<open>
  The loop of lines 93 to 95: \<open>enumerate\<close> advances its index after every element, also
  after a \<open>pop\<close>, and stops when the index reaches the current length.
\<close>

function save_scan ::
  "string \<Rightarrow> nat \<Rightarrow> ('t, 'p) PasswordSetting list \<Rightarrow> ('t, 'p) PasswordSetting list" where
  "save_scan dname i ss =
     (if i < length ss then
        (if domain (ss ! i) = dname then save_scan dname (i + 1) (pop i ss)
         else save_scan dname (i + 1) ss)
      else ss)"
  by pat_completeness auto
termination
  by (relation "measure (\<lambda>(dname, i, ss). length ss - i)") (auto simp: pop_def)

declare save_scan.simps [simp del]

definition save_setting ::
  "('t, 'p) PasswordSetting \<Rightarrow> ('t, 'p) manager \<Rightarrow> ('t, 'p) manager" where
  "save_setting setting m = m\<lparr>settings := save_scan (domain setting) 0 (settings m) @ [setting]\<rparr>"

function delete_scan ::
  "string \<Rightarrow> nat \<Rightarrow> ('t, 'p) PasswordSetting list \<Rightarrow> ('t, 'p) PasswordSetting list" where
  "delete_scan dname i ss =
     (if i < length ss then
        (if domain (ss ! i) = dname then delete_scan dname i (pop i ss)
         else delete_scan dname (i + 1) ss)
      else ss)"
  by pat_completeness auto
termination
  by (relation "measure (\<lambda>(dname, i, ss). length ss - i)") (auto simp: pop_def)

declare delete_scan.simps [simp del]

definition delete_setting ::
  "('t, 'p) PasswordSetting \<Rightarrow> ('t, 'p) manager \<Rightarrow> ('t, 'p) manager" where
  "delete_setting setting m = m\<lparr>settings := delete_scan (domain setting) 0 (settings m)\<rparr>"

definition get_domain_list :: "('t, 'p) manager \<Rightarrow> string list" where
  "get_domain_list m = map domain (settings m)"

definition set_all_settings_to_synced :: "('t, 'p) manager \<Rightarrow> ('t, 'p) manager" where
  "set_all_settings_to_synced m = m\<lparr>settings := map (set_synced True) (settings m)\<rparr>"

subsection \<open>get_settings_as_list and get_export_data\<close>

text \<open>
  The dictionary \<open>{'settings': [...], 'synced': [...]}\<close> as a pair, together with the
  manager, which the method only reads.
\<close>

definition get_settings_as_list ::
  "('t \<Rightarrow> string) \<Rightarrow> ('t, 'p) manager
     \<Rightarrow> (('t, 'p) record_data list \<times> string list) \<times> ('t, 'p) manager" where
  "get_settings_as_list fmt m =
     ((map (to_dict fmt) (settings m),
       map domain (filter synced (settings m))), m)"

text \<open>
  The loop of lines 143 to 147 for one deleted dictionary \<open>data_set\<close> of the remote data:
  every element of \<open>settings_list\<close> is compared and possibly replaced, in order. The first
  conjunct of the condition is written as in the source.
\<close>

fun export_replace ::
  "(string \<Rightarrow> 't option) \<Rightarrow> ('t::linorder, 'p) record_data \<Rightarrow> ('t, 'p) record_data list
     \<Rightarrow> error + ('t, 'p) record_data list" where
  "export_replace parse data_set [] = Inr []"
| "export_replace parse data_set (setting_dict # rest) =
     (if rd_domain setting_dict = rd_domain setting_dict then
        (case strptime parse (rd_mDate data_set) of
           Inl e \<Rightarrow> Inl e
         | Inr t \<Rightarrow>
             (case strptime parse (rd_mDate setting_dict) of
                Inl e \<Rightarrow> Inl e
              | Inr u \<Rightarrow>
                  (case export_replace parse data_set rest of
                     Inl e \<Rightarrow> Inl e
                   | Inr rest' \<Rightarrow> Inr ((if t > u then data_set else setting_dict) # rest'))))
      else
        (case export_replace parse data_set rest of
           Inl e \<Rightarrow> Inl e
         | Inr rest' \<Rightarrow> Inr (setting_dict # rest')))"

text \<open>
  The loop of lines 141 to 153 over the remote data. \<open>now k\<close> is what the \<open>k\<close>-th call of
  \<open>datetime.now()\<close> returns; \<open>k\<close> counts the calls made so far.
\<close>

fun export_loop ::
  "(string \<Rightarrow> 't option) \<Rightarrow> (nat \<Rightarrow> 't) \<Rightarrow> nat \<Rightarrow> ('t::linorder, 'p) record_data list
     \<Rightarrow> ('t, 'p) record_data list \<Rightarrow> error + ('t, 'p) record_data list" where
  "export_loop parse now k [] settings_list = Inr settings_list"
| "export_loop parse now k (data_set # ds) settings_list =
     (case (if rd_deleted data_set = Some True
            then export_replace parse data_set settings_list
            else Inr settings_list) of
        Inl e \<Rightarrow> Inl e
      | Inr settings_list' \<Rightarrow>
          if rd_domain data_set \<notin> set (map rd_domain settings_list') then
            export_loop parse now (k + 1) ds
              (settings_list' @
                 [\<lparr>rd_domain = rd_domain data_set, rd_mDate = PyDateTime (now k),
                   rd_deleted = Some True, rd_fields = None\<rparr>])
          else export_loop parse now k ds settings_list')"

text \<open>
  Lines 139 to 155. The manager is returned as the method leaves it; an exception is
  raised by \<open>strptime\<close> in the loops or by \<open>json.dumps\<close>.
\<close>

definition get_export_data ::
  "(string \<Rightarrow> 't option) \<Rightarrow> ('t \<Rightarrow> string) \<Rightarrow> (nat \<Rightarrow> 't) \<Rightarrow> string \<Rightarrow> ('t::linorder, 'p) manager
     \<Rightarrow> (error + 'p blob) \<times> ('t, 'p) manager" where
  "get_export_data parse fmt now password m =
     (case get_settings_as_list fmt m of
        ((settings_list, synced_list), m') \<Rightarrow>
          (case (case remote_data m' of
                   None \<Rightarrow> Inr settings_list
                 | Some rd \<Rightarrow>
                     if rd \<noteq> [] then export_loop parse now 0 rd settings_list
                     else Inr settings_list) of
             Inl e \<Rightarrow> (Inl e, m')
           | Inr settings_list' \<Rightarrow>
               (case json_dumps settings_list' of
                  Inl e \<Rightarrow> (Inl e, m')
                | Inr js \<Rightarrow> (Inr (encrypt password js), m'))))"

subsection \<open>update_from_export_data\<close>

text \<open>
  The \<open>while\<close> loop of lines 170 to 185 for one dictionary of the remote data, with the
  flags \<open>found\<close> and \<open>update_remote\<close>.
\<close>

function update_scan ::
  "(string \<Rightarrow> 't option) \<Rightarrow> ('t::linorder, 'p) record_data \<Rightarrow> nat
     \<Rightarrow> ('t, 'p) PasswordSetting list \<Rightarrow> bool \<Rightarrow> bool
     \<Rightarrow> (error \<times> ('t, 'p) PasswordSetting list)
        + (('t, 'p) PasswordSetting list \<times> bool \<times> bool)" where
  "update_scan parse d i ss found update_remote =
     (if i < length ss then
        (if domain (ss ! i) = rd_domain d then
           (case strptime parse (rd_mDate d) of
              Inl e \<Rightarrow> Inl (e, ss)
            | Inr t \<Rightarrow>
                if t > m_date (ss ! i) then
                  (if rd_deleted d = Some True then
                     update_scan parse d i (pop i ss) True update_remote
                   else
                     (case load_from_dict parse (ss ! i) d of
                        Inl e \<Rightarrow> Inl (e, ss)
                      | Inr s' \<Rightarrow>
                          update_scan parse d (i + 1) (ss[i := set_synced True s'])
                            True update_remote))
                else update_scan parse d (i + 1) ss True True)
         else update_scan parse d (i + 1) ss found update_remote)
      else Inr (ss, found, update_remote))"
  by pat_completeness auto
termination
  by (relation "measure (\<lambda>(parse, d, i, ss, found, u). length ss - i)") (auto simp: pop_def)

declare update_scan.simps [simp del]

text \<open>
  The body of the \<open>for\<close> loop of lines 167 to 190 for one dictionary: the merge step.
  \<open>dflt\<close> is the generated state of the object that line 187 constructs.
\<close>

definition merge_entry ::
  "(string \<Rightarrow> 't option) \<Rightarrow> ('t, 'p) PasswordSetting \<Rightarrow> ('t::linorder, 'p) record_data
     \<Rightarrow> ('t, 'p) PasswordSetting list \<Rightarrow> bool
     \<Rightarrow> (error \<times> ('t, 'p) PasswordSetting list) + (('t, 'p) PasswordSetting list \<times> bool)" where
  "merge_entry parse dflt d ss update_remote =
     (case update_scan parse d 0 ss False update_remote of
        Inl err \<Rightarrow> Inl err
      | Inr (ss', found, update_remote') \<Rightarrow>
          if \<not> found then
            (case load_from_dict parse (PasswordSetting_new dflt (rd_domain d)) d of
               Inl e \<Rightarrow> Inl (e, ss')
             | Inr new_setting \<Rightarrow> Inr (ss' @ [set_synced True new_setting], update_remote'))
          else Inr (ss', update_remote'))"

text \<open>
  The \<open>for\<close> loop of lines 167 to 190 over the remote data; \<open>gen k\<close> is the generated
  state for the \<open>k\<close>-th dictionary.
\<close>

fun update_loop ::
  "(string \<Rightarrow> 't option) \<Rightarrow> (nat \<Rightarrow> ('t, 'p) PasswordSetting) \<Rightarrow> nat
     \<Rightarrow> ('t::linorder, 'p) record_data list \<Rightarrow> ('t, 'p) PasswordSetting list \<Rightarrow> bool
     \<Rightarrow> (error \<times> ('t, 'p) PasswordSetting list) + (('t, 'p) PasswordSetting list \<times> bool)" where
  "update_loop parse gen k [] ss update_remote = Inr (ss, update_remote)"
| "update_loop parse gen k (d # ds) ss update_remote =
     (case merge_entry parse (gen k) d ss update_remote of
        Inl err \<Rightarrow> Inl err
      | Inr (ss', update_remote') \<Rightarrow> update_loop parse gen (k + 1) ds ss' update_remote')"

text \<open>The inner loop of lines 193 to 197 for one setting.\<close>

fun stale_scan ::
  "(string \<Rightarrow> 't option) \<Rightarrow> ('t::linorder, 'p) PasswordSetting \<Rightarrow> ('t, 'p) record_data list
     \<Rightarrow> bool \<Rightarrow> bool \<Rightarrow> error + (bool \<times> bool)" where
  "stale_scan parse setting [] found update_remote = Inr (found, update_remote)"
| "stale_scan parse setting (d # ds) found update_remote =
     (if domain setting = rd_domain d then
        (case strptime parse (rd_mDate d) of
           Inl e \<Rightarrow> Inl e
         | Inr t \<Rightarrow>
             if m_date setting \<ge> t then stale_scan parse setting ds True True
             else stale_scan parse setting ds True update_remote)
      else stale_scan parse setting ds found update_remote)"

text \<open>The loop of lines 191 to 199 over the settings.\<close>

fun stale_loop ::
  "(string \<Rightarrow> 't option) \<Rightarrow> ('t::linorder, 'p) PasswordSetting list \<Rightarrow> ('t, 'p) record_data list
     \<Rightarrow> bool \<Rightarrow> error + bool" where
  "stale_loop parse [] rd update_remote = Inr update_remote"
| "stale_loop parse (setting # ss) rd update_remote =
     (case stale_scan parse setting rd False update_remote of
        Inl e \<Rightarrow> Inl e
      | Inr (found, update_remote') \<Rightarrow>
          if \<not> found then stale_loop parse ss rd True
          else stale_loop parse ss rd update_remote')"

text \<open>
  Lines 164 to 200. The remote data is stored before the loops run, so it stays stored when
  a loop raises; the settings are then as the loop left them.
\<close>

definition update_from_export_data ::
  "(string \<Rightarrow> 't option) \<Rightarrow> (nat \<Rightarrow> ('t, 'p) PasswordSetting) \<Rightarrow> string \<Rightarrow> 'p blob
     \<Rightarrow> ('t::linorder, 'p) manager \<Rightarrow> (error + bool) \<times> ('t, 'p) manager" where
  "update_from_export_data parse gen password data m =
     (case decrypt password data of
        Inl e \<Rightarrow> (Inl e, m)
      | Inr js \<Rightarrow>
          (let m1 = m\<lparr>remote_data := Some (json_loads js)\<rparr>
           in (case update_loop parse gen 0 (json_loads js) (settings m1) False of
                 Inl (e, ss) \<Rightarrow> (Inl e, m1\<lparr>settings := ss\<rparr>)
               | Inr (ss, update_remote) \<Rightarrow>
                   (let m2 = m1\<lparr>settings := ss\<rparr>
                    in (case stale_loop parse ss (json_loads js) update_remote of
                          Inl e \<Rightarrow> (Inl e, m2)
                        | Inr b \<Rightarrow> (Inr b, m2))))))"

section \<open>An instance of the library's datetime\<close>

text \<open>
  For evaluating the operations on concrete inputs: a \<open>datetime\<close> as the number whose
  decimal digits are YYYYMMDDHHMMSSffffff (year down to microsecond), so that the order
  of the numbers is the order of the datetimes. \<open>iso_parse\<close> reads the fixed-width form
  \<open>YYYY-MM-DDTHH:MM:SS\<close> of a valid date and time, as \<open>strptime\<close> does with the format
  \<open>"%Y-%m-%dT%H:%M:%S"\<close>, and \<open>iso_format\<close> writes it, as \<open>strftime\<close> does, dropping the
  microseconds.
\<close>

fun number :: "nat \<Rightarrow> string \<Rightarrow> nat option" where
  "number acc [] = Some acc"
| "number acc (c # cs) =
     (let n = (of_char c :: nat)
      in if 48 \<le> n \<and> n \<le> 57 then number (10 * acc + (n - 48)) cs else None)"

definition days_in_month :: "nat \<Rightarrow> nat \<Rightarrow> nat" where
  "days_in_month y mo =
     (if mo = 2 then (if y mod 4 = 0 \<and> (y mod 100 \<noteq> 0 \<or> y mod 400 = 0) then 29 else 28)
      else if mo = 4 \<or> mo = 6 \<or> mo = 9 \<or> mo = 11 then 30 else 31)"

definition iso_parse :: "string \<Rightarrow> nat option" where
  "iso_parse s =
     (if length s = 19 \<and> s ! 4 = CHR ''-'' \<and> s ! 7 = CHR ''-'' \<and> s ! 10 = CHR ''T''
         \<and> s ! 13 = CHR '':'' \<and> s ! 16 = CHR '':'' then
        (case (number 0 (take 4 s), number 0 (take 2 (drop 5 s)), number 0 (take 2 (drop 8 s)),
               number 0 (take 2 (drop 11 s)), number 0 (take 2 (drop 14 s)),
               number 0 (take 2 (drop 17 s))) of
           (Some y, Some mo, Some d, Some h, Some mi, Some sec) \<Rightarrow>
             if 1 \<le> y \<and> 1 \<le> mo \<and> mo \<le> 12 \<and> 1 \<le> d \<and> d \<le> days_in_month y mo
                \<and> h < 24 \<and> mi < 60 \<and> sec < 60
             then Some ((((((y * 100 + mo) * 100 + d) * 100 + h) * 100 + mi) * 100 + sec)
                        * 1000000)
             else None
         | _ \<Rightarrow> None)
      else None)"

definition digit_char :: "nat \<Rightarrow> char" where
  "digit_char n = ''0123456789'' ! (n mod 10)"

definition two_digits :: "nat \<Rightarrow> string" where
  "two_digits n = [digit_char (n div 10), digit_char n]"

definition four_digits :: "nat \<Rightarrow> string" where
  "four_digits n = two_digits (n div 100) @ two_digits n"

definition iso_format :: "nat \<Rightarrow> string" where
  "iso_format t =
     (let n = t div 1000000
      in four_digits (n div 10000000000) @ ''-'' @ two_digits (n div 100000000) @ ''-''
         @ two_digits (n div 1000000) @ ''T'' @ two_digits (n div 10000) @ '':''
         @ two_digits (n div 100) @ '':'' @ two_digits n)"

section \<open>What the merge loops compute\<close>

text \<open>
  Closed forms of the index loops, used in the proofs below. \<open>overwrite t d b s\<close> is the
  setting \<open>s\<close> after \<open>load_from_dict\<close> with a dictionary \<open>d\<close> whose date parses to \<open>t\<close> and
  after \<open>set_synced(b)\<close>; \<open>newer t d s\<close> says that \<open>d\<close> addresses \<open>s\<close> and is strictly newer;
  \<open>merged\<close> and \<open>loaded\<close> are the settings after the loops of \<open>update_from_export_data\<close>
  and of \<open>load_settings_from_file\<close> for one dictionary.
\<close>

definition overwrite ::
  "'t \<Rightarrow> ('t, 'p) record_data \<Rightarrow> bool \<Rightarrow> ('t, 'p) PasswordSetting \<Rightarrow> ('t, 'p) PasswordSetting" where
  "overwrite t d b s =
     s\<lparr>m_date := t, policy := (case rd_fields d of None \<Rightarrow> policy s | Some p \<Rightarrow> p),
       synced := b\<rparr>"

definition newer :: "'t::linorder \<Rightarrow> ('t, 'p) record_data \<Rightarrow> ('t, 'p) PasswordSetting \<Rightarrow> bool" where
  "newer t d s \<longleftrightarrow> domain s = rd_domain d \<and> m_date s < t"

definition merged ::
  "'t::linorder \<Rightarrow> ('t, 'p) record_data \<Rightarrow> ('t, 'p) PasswordSetting list
     \<Rightarrow> ('t, 'p) PasswordSetting list" where
  "merged t d xs =
     (if rd_deleted d = Some True then filter (\<lambda>s. \<not> newer t d s) xs
      else map (\<lambda>s. if newer t d s then overwrite t d True s else s) xs)"

definition loaded ::
  "'t::linorder \<Rightarrow> string list \<Rightarrow> ('t, 'p) record_data \<Rightarrow> ('t, 'p) PasswordSetting list
     \<Rightarrow> ('t, 'p) PasswordSetting list" where
  "loaded t syn d xs =
     map (\<lambda>s. if newer t d s then overwrite t d (domain s \<in> set syn) s else s) xs"

section \<open>Example stores\<close>

text \<open>
  Concrete settings, remote data and files, with the datetime instance above and a string
  as the opaque policy.
\<close>

definition ex_a :: "(nat, string) PasswordSetting" where
  "ex_a = \<lparr>domain = ''a.com'', m_date = 20200101000000000000, synced = False,
           policy = ''length 10''\<rparr>"

definition ex_b :: "(nat, string) PasswordSetting" where
  "ex_b = \<lparr>domain = ''b.com'', m_date = 20200301120000250000, synced = True,
           policy = ''length 16''\<rparr>"

definition ex_default :: "(nat, string) PasswordSetting" where
  "ex_default = \<lparr>domain = '''', m_date = 20220101000000000000, synced = False,
                 policy = ''default''\<rparr>"

definition ex_gen :: "nat \<Rightarrow> (nat, string) PasswordSetting" where
  "ex_gen k = ex_default"

definition ex_now :: "nat \<Rightarrow> nat" where
  "ex_now k = 20220101000000000000 + k"

definition ex_path :: string where
  "ex_path = ''.ctSESAM.pws''"

definition ex_tombstone_a :: "string json_entry" where
  "ex_tombstone_a = \<lparr>js_domain = ''a.com'', js_mDate = ''2021-06-01T00:00:00'',
                      js_deleted = Some True, js_fields = None\<rparr>"

definition ex_empty :: "(nat, string) manager" where
  "ex_empty = \<lparr>settings_file = ex_path, remote_data = None, settings = []\<rparr>"

definition ex_remote_tombstone :: "(nat, string) record_data" where
  "ex_remote_tombstone = \<lparr>rd_domain = ''a.com'', rd_mDate = PyStr ''2021-06-01T00:00:00'',
                           rd_deleted = Some True, rd_fields = None\<rparr>"

definition ex_only_b :: "(nat, string) manager" where
  "ex_only_b = \<lparr>settings_file = ex_path, remote_data = Some [ex_remote_tombstone],
                settings = [ex_b]\<rparr>"

definition ex_remote_live :: "(nat, string) record_data" where
  "ex_remote_live = \<lparr>rd_domain = ''a.com'', rd_mDate = PyStr ''2020-01-01T00:00:00'',
                      rd_deleted = None, rd_fields = Some ''length 10''\<rparr>"

definition ex_deleted_locally :: "(nat, string) manager" where
  "ex_deleted_locally = \<lparr>settings_file = ex_path, remote_data = Some [ex_remote_live],
                         settings = [ex_b]\<rparr>"

definition ex_fs :: "string \<rightharpoonup> string saved_file" where
  "ex_fs = [''backup.pws'' \<mapsto> Encrypted ''pw'' ([ex_tombstone_a], [])]"

definition ex_live_a :: "(nat, string) record_data" where
  "ex_live_a = \<lparr>rd_domain = ''a.com'', rd_mDate = PyStr ''2021-06-01T00:00:00'',
                 rd_deleted = None, rd_fields = Some ''length 20''\<rparr>"

definition ex_old_a :: "(nat, string) record_data" where
  "ex_old_a = \<lparr>rd_domain = ''a.com'', rd_mDate = PyStr ''2020-01-01T00:00:00'',
                rd_deleted = Some True, rd_fields = None\<rparr>"

definition ex_one_a :: "(nat, string) manager" where
  "ex_one_a = \<lparr>settings_file = ex_path, remote_data = None, settings = [ex_a]\<rparr>"

definition ex_blob_a :: "string blob" where
  "ex_blob_a = Encrypted ''pw'' [\<lparr>js_domain = ''a.com'', js_mDate = ''2020-01-01T00:00:00'',
                                  js_deleted = None, js_fields = Some ''length 10''\<rparr>]"

definition ex_two :: "(nat, string) manager" where
  "ex_two = \<lparr>settings_file = ex_path, remote_data = None, settings = [ex_a, ex_b]\<rparr>"

definition ex_two_copy :: "(nat, string) manager" where
  "ex_two_copy = \<lparr>settings_file = ''copy.pws'', remote_data = None, settings = [ex_a, ex_b]\<rparr>"

definition ex_json_dup :: "string json_entry list" where
  "ex_json_dup =
     [\<lparr>js_domain = ''a.com'', js_mDate = ''2020-01-01T00:00:00'', js_deleted = None,
       js_fields = Some ''length 10''\<rparr>,
      ex_tombstone_a]"

definition ex_remote_dup :: "(nat, string) record_data list" where
  "ex_remote_dup =
     [\<lparr>rd_domain = ''a.com'', rd_mDate = PyStr ''2020-01-01T00:00:00'', rd_deleted = None,
       rd_fields = Some ''length 10''\<rparr>,
      ex_remote_tombstone]"

definition ex_after_dup :: "(nat, string) manager" where
  "ex_after_dup = \<lparr>settings_file = ex_path, remote_data = Some ex_remote_dup, settings = []\<rparr>"

definition ex_fs_saved :: "string \<rightharpoonup> string saved_file" where
  "ex_fs_saved = [ex_path \<mapsto> Encrypted ''pw'' ([ex_tombstone_a], [''a.com''])]"

section \<open>The return value of the import in the spec's words\<close>

text \<open>
  The condition of the spec for "an export is needed", over the settings after the merge
  and the imported payload: some setting has no entry of its domain in the payload, or
  some setting is not strictly older than an entry of its domain.
\<close>

definition export_needed ::
  "(string \<Rightarrow> 't option) \<Rightarrow> ('t::linorder, 'p) PasswordSetting list \<Rightarrow> ('t, 'p) record_data list
     \<Rightarrow> bool" where
  "export_needed parse ss rd \<longleftrightarrow>
     (\<exists>s\<in>set ss.
        (\<forall>d\<in>set rd. rd_domain d \<noteq> domain s)
        \<or> (\<exists>d\<in>set rd. rd_domain d = domain s
              \<and> (case strptime parse (rd_mDate d) of
                    Inl e \<Rightarrow> False
                  | Inr t \<Rightarrow> \<not> m_date s < t)))"

text \<open>Every date of the payload is accepted by \<open>strptime\<close>.\<close>

definition all_parse :: "(string \<Rightarrow> 't option) \<Rightarrow> ('t, 'p) record_data list \<Rightarrow> bool" where
  "all_parse parse rd \<longleftrightarrow> (\<forall>d\<in>set rd. \<exists>t. strptime parse (rd_mDate d) = Inr t)"

text \<open>The JSON text of \<open>to_dict\<close>.\<close>

definition to_json :: "('t \<Rightarrow> string) \<Rightarrow> ('t, 'p) PasswordSetting \<Rightarrow> 'p json_entry" where
  "to_json fmt s =
     \<lparr>js_domain = domain s, js_mDate = fmt (m_date s), js_deleted = None,
      js_fields = Some (policy s)\<rparr>"

section \<open>The index loops in closed form\<close>

lemma pop_take: "i < length xs \<Longrightarrow> take i (pop i xs) = take i xs"
  by (simp add: pop_def)

lemma pop_drop: "i < length xs \<Longrightarrow> drop i (pop i xs) = drop (Suc i) xs"
  by (simp add: pop_def)

lemma load_from_dict_parsed:
  "strptime parse (rd_mDate d) = Inr t \<Longrightarrow>
   load_from_dict parse s d =
     Inr (s\<lparr>m_date := t, policy := (case rd_fields d of None \<Rightarrow> policy s | Some p \<Rightarrow> p)\<rparr>)"
  by (simp add: load_from_dict_def)

lemma load_from_dict_failed:
  "strptime parse (rd_mDate d) = Inl e \<Longrightarrow> load_from_dict parse s d = Inl e"
  by (simp add: load_from_dict_def)

lemma update_scan_parsed:
  assumes "strptime parse (rd_mDate d) = Inr t"
  shows "update_scan parse d i ss found u =
     Inr (take i ss @ merged t d (drop i ss),
          found \<or> (\<exists>s\<in>set (drop i ss). domain s = rd_domain d),
          u \<or> (\<exists>s\<in>set (drop i ss). domain s = rd_domain d \<and> \<not> m_date s < t))"
  using assms
proof (induction parse d i ss found u rule: update_scan.induct)
  case (1 parse d i ss found u)
  note par = \<open>strptime parse (rd_mDate d) = Inr t\<close>
  show ?case
  proof (cases "i < length ss")
    case False
    then show ?thesis
      by (subst update_scan.simps) (simp add: merged_def)
  next
    case inrange: True
    then have dr: "drop i ss = ss ! i # drop (Suc i) ss"
      by (simp add: Cons_nth_drop_Suc)
    have tk: "take (Suc i) ss = take i ss @ [ss ! i]"
      using inrange by (simp add: take_Suc_conv_app_nth)
    show ?thesis
    proof (cases "domain (ss ! i) = rd_domain d")
      case False
      then have "update_scan parse d i ss found u = update_scan parse d (i + 1) ss found u"
        using inrange by (subst update_scan.simps) simp
      also have "\<dots> = Inr (take (i + 1) ss @ merged t d (drop (i + 1) ss),
          found \<or> (\<exists>s\<in>set (drop (i + 1) ss). domain s = rd_domain d),
          u \<or> (\<exists>s\<in>set (drop (i + 1) ss). domain s = rd_domain d \<and> \<not> m_date s < t))"
        using "1.IH"(4) [OF inrange False par] .
      finally show ?thesis
        using False by (simp add: dr tk merged_def newer_def)
    next
      case match: True
      show ?thesis
      proof (cases "m_date (ss ! i) < t")
        case False
        then have "update_scan parse d i ss found u = update_scan parse d (i + 1) ss True True"
          using inrange match par by (subst update_scan.simps) simp
        also have "\<dots> = Inr (take (i + 1) ss @ merged t d (drop (i + 1) ss),
          True \<or> (\<exists>s\<in>set (drop (i + 1) ss). domain s = rd_domain d),
          True \<or> (\<exists>s\<in>set (drop (i + 1) ss). domain s = rd_domain d \<and> \<not> m_date s < t))"
          using "1.IH"(3) [OF inrange match par False par] .
        finally show ?thesis
          using False match by (simp add: dr tk merged_def newer_def)
      next
        case new: True
        show ?thesis
        proof (cases "rd_deleted d = Some True")
          case True
          then have "update_scan parse d i ss found u = update_scan parse d i (pop i ss) True u"
            using inrange match par new by (subst update_scan.simps) simp
          also have "\<dots> = Inr (take i (pop i ss) @ merged t d (drop i (pop i ss)),
            True \<or> (\<exists>s\<in>set (drop i (pop i ss)). domain s = rd_domain d),
            u \<or> (\<exists>s\<in>set (drop i (pop i ss)). domain s = rd_domain d \<and> \<not> m_date s < t))"
            using "1.IH"(1) [OF inrange match par new True par] .
          finally show ?thesis
            using True match new inrange
            by (simp add: dr merged_def newer_def pop_take pop_drop)
        next
          case False
          let ?s' = "(ss ! i)\<lparr>m_date := t,
             policy := (case rd_fields d of None \<Rightarrow> policy (ss ! i) | Some p \<Rightarrow> p)\<rparr>"
          have lfd: "load_from_dict parse (ss ! i) d = Inr ?s'"
            using par by (rule load_from_dict_parsed)
          let ?ss' = "ss[i := set_synced True ?s']"
          have "update_scan parse d i ss found u = update_scan parse d (i + 1) ?ss' True u"
            using inrange match par new False lfd by (subst update_scan.simps) simp
          also have "\<dots> = Inr (take (i + 1) ?ss' @ merged t d (drop (i + 1) ?ss'),
            True \<or> (\<exists>s\<in>set (drop (i + 1) ?ss'). domain s = rd_domain d),
            u \<or> (\<exists>s\<in>set (drop (i + 1) ?ss'). domain s = rd_domain d \<and> \<not> m_date s < t))"
            using "1.IH"(2) [OF inrange match par new False lfd par] .
          finally show ?thesis
            using False match new inrange
            by (simp add: dr merged_def newer_def overwrite_def set_synced_def
                  take_Suc_conv_app_nth)
        qed
      qed
    qed
  qed
qed

lemma update_scan_failed:
  assumes "strptime parse (rd_mDate d) = Inl e"
  shows "update_scan parse d i ss found u =
     (if \<exists>s\<in>set (drop i ss). domain s = rd_domain d then Inl (e, ss) else Inr (ss, found, u))"
  using assms
proof (induction parse d i ss found u rule: update_scan.induct)
  case (1 parse d i ss found u)
  note par = \<open>strptime parse (rd_mDate d) = Inl e\<close>
  show ?case
  proof (cases "i < length ss")
    case False
    then show ?thesis
      by (subst update_scan.simps) simp
  next
    case inrange: True
    then have dr: "drop i ss = ss ! i # drop (Suc i) ss"
      by (simp add: Cons_nth_drop_Suc)
    show ?thesis
    proof (cases "domain (ss ! i) = rd_domain d")
      case False
      then have "update_scan parse d i ss found u = update_scan parse d (i + 1) ss found u"
        using inrange by (subst update_scan.simps) simp
      also have "\<dots> = (if \<exists>s\<in>set (drop (i + 1) ss). domain s = rd_domain d
                        then Inl (e, ss) else Inr (ss, found, u))"
        using "1.IH"(4) [OF inrange False par] .
      finally show ?thesis
        using False by (simp add: dr)
    next
      case True
      then show ?thesis
        using inrange par by (subst update_scan.simps) (simp add: dr)
    qed
  qed
qed

lemma load_scan_parsed:
  assumes "strptime parse (rd_mDate d) = Inr t"
  shows "load_scan parse syn d i ss found =
     Inr (take i ss @ loaded t syn d (drop i ss),
          found \<or> (\<exists>s\<in>set (drop i ss). domain s = rd_domain d))"
  using assms
proof (induction parse syn d i ss found rule: load_scan.induct)
  case (1 parse syn d i ss found)
  note par = \<open>strptime parse (rd_mDate d) = Inr t\<close>
  show ?case
  proof (cases "i < length ss")
    case False
    then show ?thesis
      by (subst load_scan.simps) (simp add: loaded_def)
  next
    case inrange: True
    then have dr: "drop i ss = ss ! i # drop (Suc i) ss"
      by (simp add: Cons_nth_drop_Suc)
    have tk: "take (Suc i) ss = take i ss @ [ss ! i]"
      using inrange by (simp add: take_Suc_conv_app_nth)
    show ?thesis
    proof (cases "domain (ss ! i) = rd_domain d")
      case False
      then have "load_scan parse syn d i ss found = load_scan parse syn d (i + 1) ss found"
        using inrange by (subst load_scan.simps) simp
      also have "\<dots> = Inr (take (i + 1) ss @ loaded t syn d (drop (i + 1) ss),
          found \<or> (\<exists>s\<in>set (drop (i + 1) ss). domain s = rd_domain d))"
        using "1.IH"(3) [OF inrange False par] .
      finally show ?thesis
        using False by (simp add: dr tk loaded_def newer_def)
    next
      case match: True
      show ?thesis
      proof (cases "m_date (ss ! i) < t")
        case False
        then have "load_scan parse syn d i ss found = load_scan parse syn d (i + 1) ss True"
          using inrange match par by (subst load_scan.simps) simp
        also have "\<dots> = Inr (take (i + 1) ss @ loaded t syn d (drop (i + 1) ss),
          True \<or> (\<exists>s\<in>set (drop (i + 1) ss). domain s = rd_domain d))"
          using "1.IH"(2) [OF inrange match par False par] .
        finally show ?thesis
          using False match by (simp add: dr tk loaded_def newer_def)
      next
        case new: True
        let ?s' = "(ss ! i)\<lparr>m_date := t,
           policy := (case rd_fields d of None \<Rightarrow> policy (ss ! i) | Some p \<Rightarrow> p)\<rparr>"
        have lfd: "load_from_dict parse (ss ! i) d = Inr ?s'"
          using par by (rule load_from_dict_parsed)
        let ?ss' = "ss[i := set_synced (domain ?s' \<in> set syn) ?s']"
        have "load_scan parse syn d i ss found = load_scan parse syn d (i + 1) ?ss' True"
          using inrange match par new lfd by (subst load_scan.simps) simp
        also have "\<dots> = Inr (take (i + 1) ?ss' @ loaded t syn d (drop (i + 1) ?ss'),
          True \<or> (\<exists>s\<in>set (drop (i + 1) ?ss'). domain s = rd_domain d))"
          using "1.IH"(1) [OF inrange match par new lfd par] .
        finally show ?thesis
          using match new inrange
          by (simp add: dr loaded_def newer_def overwrite_def set_synced_def
                take_Suc_conv_app_nth)
      qed
    qed
  qed
qed

lemma load_scan_failed:
  assumes "strptime parse (rd_mDate d) = Inl e"
  shows "load_scan parse syn d i ss found =
     (if \<exists>s\<in>set (drop i ss). domain s = rd_domain d then Inl (e, ss) else Inr (ss, found))"
  using assms
proof (induction parse syn d i ss found rule: load_scan.induct)
  case (1 parse syn d i ss found)
  note par = \<open>strptime parse (rd_mDate d) = Inl e\<close>
  show ?case
  proof (cases "i < length ss")
    case False
    then show ?thesis
      by (subst load_scan.simps) simp
  next
    case inrange: True
    then have dr: "drop i ss = ss ! i # drop (Suc i) ss"
      by (simp add: Cons_nth_drop_Suc)
    show ?thesis
    proof (cases "domain (ss ! i) = rd_domain d")
      case False
      then have "load_scan parse syn d i ss found = load_scan parse syn d (i + 1) ss found"
        using inrange by (subst load_scan.simps) simp
      also have "\<dots> = (if \<exists>s\<in>set (drop (i + 1) ss). domain s = rd_domain d
                        then Inl (e, ss) else Inr (ss, found))"
        using "1.IH"(3) [OF inrange False par] .
      finally show ?thesis
        using False by (simp add: dr)
    next
      case True
      then show ?thesis
        using inrange par by (subst load_scan.simps) (simp add: dr)
    qed
  qed
qed

lemma merged_absent:
  "\<not> (\<exists>s\<in>set ss. domain s = rd_domain d) \<Longrightarrow> merged t d ss = ss"
  by (auto simp: merged_def newer_def intro: map_idI filter_True)

lemma loaded_absent:
  "\<not> (\<exists>s\<in>set ss. domain s = rd_domain d) \<Longrightarrow> loaded t syn d ss = ss"
  by (auto simp: loaded_def newer_def intro: map_idI)

lemma merge_entry_parsed:
  assumes "strptime parse (rd_mDate d) = Inr t"
  shows "merge_entry parse dflt d ss u =
     Inr (if \<exists>s\<in>set ss. domain s = rd_domain d then merged t d ss
          else ss @ [overwrite t d True (PasswordSetting_new dflt (rd_domain d))],
          u \<or> (\<exists>s\<in>set ss. domain s = rd_domain d \<and> \<not> m_date s < t))"
proof (cases "\<exists>s\<in>set ss. domain s = rd_domain d")
  case True
  then show ?thesis
    by (simp add: merge_entry_def update_scan_parsed [OF assms])
next
  case False
  then have "\<not> (\<exists>s\<in>set ss. domain s = rd_domain d \<and> \<not> m_date s < t)"
    by blast
  with False show ?thesis
    by (simp add: merge_entry_def update_scan_parsed [OF assms] load_from_dict_parsed [OF assms]
          merged_absent overwrite_def set_synced_def)
qed

lemma merge_entry_failed:
  assumes "strptime parse (rd_mDate d) = Inl e"
  shows "merge_entry parse dflt d ss u = Inl (e, ss)"
  by (simp add: merge_entry_def update_scan_failed [OF assms] load_from_dict_failed [OF assms])

lemma load_entry_parsed:
  assumes "strptime parse (rd_mDate d) = Inr t"
  shows "load_entry parse dflt syn d ss =
     Inr (if \<exists>s\<in>set ss. domain s = rd_domain d then loaded t syn d ss
          else ss @ [overwrite t d (rd_domain d \<in> set syn)
                       (PasswordSetting_new dflt (rd_domain d))])"
proof (cases "\<exists>s\<in>set ss. domain s = rd_domain d")
  case True
  then show ?thesis
    by (simp add: load_entry_def load_scan_parsed [OF assms])
next
  case False
  then show ?thesis
    by (simp add: load_entry_def load_scan_parsed [OF assms] load_from_dict_parsed [OF assms]
          loaded_absent overwrite_def set_synced_def PasswordSetting_new_def)
qed

lemma load_entry_failed:
  assumes "strptime parse (rd_mDate d) = Inl e"
  shows "load_entry parse dflt syn d ss = Inl (e, ss)"
  by (simp add: load_entry_def load_scan_failed [OF assms] load_from_dict_failed [OF assms])

lemma delete_scan_filter:
  "delete_scan dname i ss = take i ss @ filter (\<lambda>s. domain s \<noteq> dname) (drop i ss)"
proof (induction dname i ss rule: delete_scan.induct)
  case (1 dname i ss)
  show ?case
  proof (cases "i < length ss")
    case False
    then show ?thesis
      by (subst delete_scan.simps) simp
  next
    case inrange: True
    then have dr: "drop i ss = ss ! i # drop (Suc i) ss"
      by (simp add: Cons_nth_drop_Suc)
    show ?thesis
    proof (cases "domain (ss ! i) = dname")
      case True
      then have "delete_scan dname i ss = delete_scan dname i (pop i ss)"
        using inrange by (subst delete_scan.simps) simp
      also have "\<dots> = take i (pop i ss) @ filter (\<lambda>s. domain s \<noteq> dname) (drop i (pop i ss))"
        using "1.IH"(1) [OF inrange True] .
      finally show ?thesis
        using True inrange by (simp add: dr pop_take pop_drop)
    next
      case False
      then have "delete_scan dname i ss = delete_scan dname (i + 1) ss"
        using inrange by (subst delete_scan.simps) simp
      also have "\<dots> = take (i + 1) ss @ filter (\<lambda>s. domain s \<noteq> dname) (drop (i + 1) ss)"
        using "1.IH"(2) [OF inrange False] .
      finally show ?thesis
        using False inrange by (simp add: dr take_Suc_conv_app_nth)
    qed
  qed
qed

lemma save_scan_no_match:
  "\<forall>s\<in>set (drop i ss). domain s \<noteq> dname \<Longrightarrow> save_scan dname i ss = ss"
proof (induction dname i ss rule: save_scan.induct)
  case (1 dname i ss)
  show ?case
  proof (cases "i < length ss")
    case False
    then show ?thesis
      by (subst save_scan.simps) simp
  next
    case inrange: True
    then have dr: "drop i ss = ss ! i # drop (Suc i) ss"
      by (simp add: Cons_nth_drop_Suc)
    with "1.prems" have nomatch: "domain (ss ! i) \<noteq> dname"
      and rest: "\<forall>s\<in>set (drop (i + 1) ss). domain s \<noteq> dname"
      by simp_all
    have "save_scan dname i ss = save_scan dname (i + 1) ss"
      using inrange nomatch by (subst save_scan.simps) simp
    also have "\<dots> = ss"
      using "1.IH"(2) [OF inrange nomatch rest] .
    finally show ?thesis .
  qed
qed

lemma distinct_domain_after:
  assumes "distinct (map domain ss)" and "i < length ss"
  shows "\<forall>s\<in>set (drop (Suc i) ss). domain s \<noteq> domain (ss ! i)"
proof -
  have "ss = take i ss @ ss ! i # drop (Suc i) ss"
    using assms(2) by (rule id_take_nth_drop)
  then have "distinct (map domain (take i ss @ ss ! i # drop (Suc i) ss))"
    using assms(1) by simp
  then show ?thesis
    by (fastforce simp: image_iff)
qed

lemma save_scan_filter:
  "distinct (map domain ss) \<Longrightarrow>
   save_scan dname i ss = take i ss @ filter (\<lambda>s. domain s \<noteq> dname) (drop i ss)"
proof (induction dname i ss rule: save_scan.induct)
  case (1 dname i ss)
  show ?case
  proof (cases "i < length ss")
    case False
    then show ?thesis
      by (subst save_scan.simps) simp
  next
    case inrange: True
    then have dr: "drop i ss = ss ! i # drop (Suc i) ss"
      by (simp add: Cons_nth_drop_Suc)
    show ?thesis
    proof (cases "domain (ss ! i) = dname")
      case True
      have after: "\<forall>s\<in>set (drop (Suc i) ss). domain s \<noteq> dname"
        using distinct_domain_after [OF "1.prems" inrange] True by simp
      have "set (drop (i + 1) (pop i ss)) \<subseteq> set (drop (Suc i) ss)"
        using inrange by (simp add: pop_def set_drop_subset_set_drop)
      with after have "\<forall>s\<in>set (drop (i + 1) (pop i ss)). domain s \<noteq> dname"
        by blast
      then have "save_scan dname (i + 1) (pop i ss) = pop i ss"
        by (rule save_scan_no_match)
      moreover have "save_scan dname i ss = save_scan dname (i + 1) (pop i ss)"
        using inrange True by (subst save_scan.simps) simp
      moreover have "filter (\<lambda>s. domain s \<noteq> dname) (drop (Suc i) ss) = drop (Suc i) ss"
        using after by (simp add: filter_id_conv)
      ultimately show ?thesis
        using True by (simp add: dr pop_def)
    next
      case False
      then have "save_scan dname i ss = save_scan dname (i + 1) ss"
        using inrange by (subst save_scan.simps) simp
      also have "\<dots> = take (i + 1) ss @ filter (\<lambda>s. domain s \<noteq> dname) (drop (i + 1) ss)"
        using "1.IH"(2) [OF inrange False "1.prems"] .
      finally show ?thesis
        using False inrange by (simp add: dr take_Suc_conv_app_nth)
    qed
  qed
qed

lemma domain_overwrite_if:
  "domain (if c then overwrite t d b s else s) = domain s"
  by (simp add: overwrite_def)

lemma one_per_domain_merged: "one_per_domain ss \<Longrightarrow> one_per_domain (merged t d ss)"
  by (simp add: one_per_domain_def merged_def distinct_map_filter comp_def domain_overwrite_if)

lemma one_per_domain_loaded: "one_per_domain ss \<Longrightarrow> one_per_domain (loaded t syn d ss)"
  by (simp add: one_per_domain_def loaded_def comp_def domain_overwrite_if)

lemma one_per_domain_append:
  "one_per_domain ss \<Longrightarrow> \<not> (\<exists>s\<in>set ss. domain s = domain x) \<Longrightarrow> one_per_domain (ss @ [x])"
  by (auto simp: one_per_domain_def)

lemma strptime_cases:
  obtains (parsed) t where "strptime parse v = Inr t" | (failed) e where "strptime parse v = Inl e"
  by (cases "strptime parse v") auto

lemma one_per_domain_merge_entry:
  assumes "one_per_domain ss"
  shows "case merge_entry parse dflt d ss u of
           Inl (e, ss') \<Rightarrow> one_per_domain ss'
         | Inr (ss', u') \<Rightarrow> one_per_domain ss'"
proof (cases rule: strptime_cases [of parse "rd_mDate d"])
  case (parsed t)
  have "domain (overwrite t d True (PasswordSetting_new dflt (rd_domain d))) = rd_domain d"
    by (simp add: overwrite_def PasswordSetting_new_def)
  then show ?thesis
    using assms
    by (simp add: merge_entry_parsed [OF parsed] one_per_domain_merged one_per_domain_append)
next
  case (failed e)
  then show ?thesis
    using assms by (simp add: merge_entry_failed)
qed

lemma one_per_domain_load_entry:
  assumes "one_per_domain ss"
  shows "case load_entry parse dflt syn d ss of
           Inl (e, ss') \<Rightarrow> one_per_domain ss'
         | Inr ss' \<Rightarrow> one_per_domain ss'"
proof (cases rule: strptime_cases [of parse "rd_mDate d"])
  case (parsed t)
  have "domain (overwrite t d b (PasswordSetting_new dflt (rd_domain d))) = rd_domain d" for b
    by (simp add: overwrite_def PasswordSetting_new_def)
  then show ?thesis
    using assms
    by (simp add: load_entry_parsed [OF parsed] one_per_domain_loaded one_per_domain_append)
next
  case (failed e)
  then show ?thesis
    using assms by (simp add: load_entry_failed)
qed

lemma one_per_domain_update_loop:
  "one_per_domain ss \<Longrightarrow>
   (case update_loop parse gen k ds ss u of
      Inl (e, ss') \<Rightarrow> one_per_domain ss'
    | Inr (ss', u') \<Rightarrow> one_per_domain ss')"
proof (induction ds arbitrary: k ss u)
  case Nil
  then show ?case by simp
next
  case (Cons d ds)
  show ?case
  proof (cases "merge_entry parse (gen k) d ss u")
    case (Inl err)
    with one_per_domain_merge_entry [OF Cons.prems, of parse "gen k" d u]
    show ?thesis by simp
  next
    case (Inr r)
    obtain ss1 u1 where r: "r = (ss1, u1)"
      by (cases r)
    with Inr one_per_domain_merge_entry [OF Cons.prems, of parse "gen k" d u]
    have "one_per_domain ss1" by simp
    from Cons.IH [OF this, of "k + 1" u1] Inr r show ?thesis
      by simp
  qed
qed

lemma one_per_domain_load_loop:
  "one_per_domain ss \<Longrightarrow>
   (case load_loop parse gen syn k ds ss of
      Inl (e, ss') \<Rightarrow> one_per_domain ss'
    | Inr ss' \<Rightarrow> one_per_domain ss')"
proof (induction ds arbitrary: k ss)
  case Nil
  then show ?case by simp
next
  case (Cons d ds)
  show ?case
  proof (cases "load_entry parse (gen k) syn d ss")
    case (Inl err)
    with one_per_domain_load_entry [OF Cons.prems, of parse "gen k" syn d]
    show ?thesis by simp
  next
    case (Inr ss1)
    with one_per_domain_load_entry [OF Cons.prems, of parse "gen k" syn d]
    have "one_per_domain ss1" by simp
    from Cons.IH [OF this, of "k + 1"] Inr show ?thesis
      by simp
  qed
qed

lemma unique_domain:
  assumes "one_per_domain ss" and "L \<in> set ss" and "s \<in> set ss" and "domain s = domain L"
  shows "s = L"
proof -
  have "inj_on domain (set ss)"
    using assms(1) by (simp add: one_per_domain_def distinct_map)
  then show ?thesis
    using assms(2-4) by (auto dest: inj_onD)
qed

lemma find_domain_map:
  assumes "one_per_domain ss" and "L \<in> set ss" and "\<And>s. domain (f s) = domain s"
  shows "find (\<lambda>s. domain s = domain L) (map f ss) = Some (f L)"
  using assms(1,2)
proof (induction ss)
  case Nil
  then show ?case by simp
next
  case (Cons x xs)
  show ?case
  proof (cases "x = L")
    case True
    then show ?thesis
      by (simp add: assms(3))
  next
    case False
    with Cons.prems have mem: "L \<in> set xs" and dist: "one_per_domain xs"
      and "domain x \<noteq> domain L"
      by (auto simp: one_per_domain_def)
    with Cons.IH show ?thesis
      by (simp add: assms(3))
  qed
qed

lemma merged_not_newer:
  assumes "\<forall>s\<in>set ss. \<not> newer t d s"
  shows "merged t d ss = ss"
  using assms by (auto simp: merged_def intro: map_idI filter_True)

lemma loaded_not_newer:
  assumes "\<forall>s\<in>set ss. \<not> newer t d s"
  shows "loaded t syn d ss = ss"
  using assms by (auto simp: loaded_def intro: map_idI)

lemma merge_entry_local_wins:
  assumes "one_per_domain ss" and "L \<in> set ss" and "domain L = rd_domain I"
    and "strptime parse (rd_mDate I) = Inr t" and "t \<le> m_date L"
  shows "merge_entry parse dflt I ss u = Inr (ss, True)"
proof -
  have only: "s = L" if "s \<in> set ss" and "domain s = rd_domain I" for s
    using unique_domain [OF assms(1,2) that(1)] that(2) assms(3) by simp
  have ex: "\<exists>s\<in>set ss. domain s = rd_domain I"
    using assms(2,3) by blast
  have none: "\<forall>s\<in>set ss. \<not> newer t I s"
    using only assms(5) by (auto simp: newer_def)
  have flag: "\<exists>s\<in>set ss. domain s = rd_domain I \<and> \<not> m_date s < t"
    using assms(2,3,5) by (auto simp: not_less)
  show ?thesis
    using ex flag by (simp add: merge_entry_parsed [OF assms(4)] merged_not_newer [OF none])
qed

lemma load_entry_local_wins:
  assumes "one_per_domain ss" and "L \<in> set ss" and "domain L = rd_domain I"
    and "strptime parse (rd_mDate I) = Inr t" and "t \<le> m_date L"
  shows "load_entry parse dflt syn I ss = Inr ss"
proof -
  have only: "s = L" if "s \<in> set ss" and "domain s = rd_domain I" for s
    using unique_domain [OF assms(1,2) that(1)] that(2) assms(3) by simp
  have ex: "\<exists>s\<in>set ss. domain s = rd_domain I"
    using assms(2,3) by blast
  have none: "\<forall>s\<in>set ss. \<not> newer t I s"
    using only assms(5) by (auto simp: newer_def)
  show ?thesis
    using ex by (simp add: load_entry_parsed [OF assms(4)] loaded_not_newer [OF none])
qed

lemma one_per_domain_ex_two: "one_per_domain [ex_a, ex_b]"
  by (simp add: one_per_domain_def ex_a_def ex_b_def)

lemma domain_new: "domain (PasswordSetting_new dflt dname) = dname"
  by (simp add: PasswordSetting_new_def)

lemma one_per_domain_filter: "one_per_domain ss \<Longrightarrow> one_per_domain (filter P ss)"
  by (simp add: one_per_domain_def distinct_map_filter)

lemma one_per_domain_get_setting:
  assumes "one_per_domain (settings m)"
  shows "one_per_domain (settings (snd (get_setting dflt dname m)))"
proof (cases "find (\<lambda>setting. domain setting = dname) (settings m)")
  case None
  then have "\<not> (\<exists>s\<in>set (settings m). domain s = domain (PasswordSetting_new dflt dname))"
    by (simp add: find_None_iff domain_new) 
  with assms have "one_per_domain (settings m @ [PasswordSetting_new dflt dname])"
    by (rule one_per_domain_append)
  with None show ?thesis
    by (simp add: get_setting_def Let_def)
next
  case (Some s)
  with assms show ?thesis
    by (simp add: get_setting_def)
qed

lemma one_per_domain_save_setting:
  assumes "one_per_domain (settings m)"
  shows "one_per_domain (settings (save_setting setting m))"
proof -
  let ?kept = "filter (\<lambda>s. domain s \<noteq> domain setting) (settings m)"
  have "save_scan (domain setting) 0 (settings m) = ?kept"
    using assms by (simp add: save_scan_filter one_per_domain_def)
  moreover have "one_per_domain (?kept @ [setting])"
    using one_per_domain_filter [OF assms] by (rule one_per_domain_append) simp
  ultimately show ?thesis
    by (simp add: save_setting_def)
qed

lemma one_per_domain_delete_setting:
  assumes "one_per_domain (settings m)"
  shows "one_per_domain (settings (delete_setting setting m))"
  using one_per_domain_filter [OF assms] by (simp add: delete_setting_def delete_scan_filter)

lemma one_per_domain_load_settings_from_file:
  assumes "one_per_domain (settings m)"
  shows "one_per_domain (settings (snd (load_settings_from_file parse gen fs password m)))"
proof (cases "fs (settings_file m)")
  case None
  with assms show ?thesis
    by (simp add: load_settings_from_file_def)
next
  case (Some bytes)
  show ?thesis
  proof (cases "decrypt password bytes")
    case (Inl e)
    with Some assms show ?thesis
      by (simp add: load_settings_from_file_def)
  next
    case (Inr r)
    obtain saved syn where r: "r = (saved, syn)"
      by (cases r)
    from one_per_domain_load_loop [OF assms, of parse gen syn 0 "json_loads saved"]
    show ?thesis
      using Some Inr r by (simp add: load_settings_from_file_def split: sum.splits prod.splits)
  qed
qed

lemma one_per_domain_update_from_export_data:
  assumes "one_per_domain (settings m)"
  shows "one_per_domain (settings (snd (update_from_export_data parse gen password data m)))"
proof (cases "decrypt password data")
  case (Inl e)
  with assms show ?thesis
    by (simp add: update_from_export_data_def)
next
  case (Inr js)
  from one_per_domain_update_loop [OF assms, of parse gen 0 "json_loads js" False]
  show ?thesis
    using Inr by (auto simp: update_from_export_data_def Let_def split: sum.splits prod.splits)
qed

lemma all_parse_Cons:
  "all_parse parse (d # ds) \<longleftrightarrow> (\<exists>t. strptime parse (rd_mDate d) = Inr t) \<and> all_parse parse ds"
  by (simp add: all_parse_def)

lemma stale_scan_parsed:
  "all_parse parse rd \<Longrightarrow>
   stale_scan parse s rd found u =
     Inr (found \<or> (\<exists>d\<in>set rd. rd_domain d = domain s),
          u \<or> (\<exists>d\<in>set rd. rd_domain d = domain s
                  \<and> (case strptime parse (rd_mDate d) of
                        Inl e \<Rightarrow> False
                      | Inr t \<Rightarrow> \<not> m_date s < t)))"
proof (induction rd arbitrary: found u)
  case Nil
  then show ?case by simp
next
  case (Cons d ds)
  from Cons.prems obtain t where t: "strptime parse (rd_mDate d) = Inr t"
    and rest: "all_parse parse ds"
    by (auto simp: all_parse_Cons)
  show ?case
  proof (cases "domain s = rd_domain d")
    case False
    then show ?thesis
      using Cons.IH [OF rest] by auto
  next
    case True
    then show ?thesis
      using Cons.IH [OF rest] t by (auto simp: not_less)
  qed
qed

lemma stale_loop_parsed:
  "all_parse parse rd \<Longrightarrow> stale_loop parse ss rd u = Inr (u \<or> export_needed parse ss rd)"
proof (induction ss arbitrary: u)
  case Nil
  then show ?case by (simp add: export_needed_def)
next
  case (Cons s ss)
  have split: "export_needed parse (s # ss) rd \<longleftrightarrow>
      (\<forall>d\<in>set rd. rd_domain d \<noteq> domain s)
      \<or> (\<exists>d\<in>set rd. rd_domain d = domain s
            \<and> (case strptime parse (rd_mDate d) of Inl e \<Rightarrow> False | Inr t \<Rightarrow> \<not> m_date s < t))
      \<or> export_needed parse ss rd"
    by (auto simp: export_needed_def)
  show ?case
    using Cons.IH [OF Cons.prems] split
    by (auto simp: stale_scan_parsed [OF Cons.prems])
qed

lemma kept_in_merged:
  "s \<in> set ss \<Longrightarrow> \<not> newer t d s \<Longrightarrow> s \<in> set (merged t d ss)"
  by (force simp: merged_def)

lemma merge_entry_Inr_cases:
  assumes "merge_entry parse dflt d ss u = Inr (ss1, u1)"
  obtains t where "strptime parse (rd_mDate d) = Inr t"
    and "ss1 = (if \<exists>s\<in>set ss. domain s = rd_domain d then merged t d ss
                else ss @ [overwrite t d True (PasswordSetting_new dflt (rd_domain d))])"
    and "u1 \<longleftrightarrow> u \<or> (\<exists>s\<in>set ss. domain s = rd_domain d \<and> \<not> m_date s < t)"
proof (cases rule: strptime_cases [of parse "rd_mDate d"])
  case (parsed t)
  with assms that [of t] show ?thesis
    by (simp add: merge_entry_parsed)
next
  case (failed e)
  with assms show ?thesis
    by (simp add: merge_entry_failed)
qed

lemma merge_entry_keeps:
  assumes "merge_entry parse dflt d ss u = Inr (ss1, u1)" and "s \<in> set ss"
    and "domain s \<noteq> rd_domain d \<or> (\<exists>t. strptime parse (rd_mDate d) = Inr t \<and> \<not> m_date s < t)"
  shows "s \<in> set ss1"
proof -
  from assms(1) obtain t where t: "strptime parse (rd_mDate d) = Inr t"
    and ss1: "ss1 = (if \<exists>s\<in>set ss. domain s = rd_domain d then merged t d ss
                else ss @ [overwrite t d True (PasswordSetting_new dflt (rd_domain d))])"
    by (rule merge_entry_Inr_cases)
  have "\<not> newer t d s"
    using assms(3) t by (auto simp: newer_def)
  with assms(2) ss1 show ?thesis
    by (simp add: kept_in_merged)
qed

lemma update_loop_keeps:
  "update_loop parse gen k ds ss u = Inr (ss', u') \<Longrightarrow> s \<in> set ss \<Longrightarrow>
   domain s \<notin> rd_domain ` set ds \<Longrightarrow> s \<in> set ss'"
proof (induction ds arbitrary: k ss u)
  case Nil
  then show ?case by simp
next
  case (Cons d ds)
  from Cons.prems(1) obtain ss1 u1 where
    step: "merge_entry parse (gen k) d ss u = Inr (ss1, u1)"
    and rest: "update_loop parse gen (k + 1) ds ss1 u1 = Inr (ss', u')"
    by (auto split: sum.splits)
  have "s \<in> set ss1"
    using step Cons.prems(2) by (rule merge_entry_keeps) (use Cons.prems(3) in auto)
  with rest show ?case
    using Cons.prems(3) by (intro Cons.IH [of "k + 1" ss1 u1]) auto
qed

lemma update_loop_flag:
  "update_loop parse gen k ds ss u = Inr (ss', u') \<Longrightarrow> distinct (map rd_domain ds) \<Longrightarrow> u' \<Longrightarrow>
   u \<or> (\<exists>s\<in>set ss'. \<exists>d\<in>set ds. rd_domain d = domain s
           \<and> (case strptime parse (rd_mDate d) of Inl e \<Rightarrow> False | Inr t \<Rightarrow> \<not> m_date s < t))"
proof (induction ds arbitrary: k ss u)
  case Nil
  then show ?case by simp
next
  case (Cons d ds)
  from Cons.prems(1) obtain ss1 u1 where
    step: "merge_entry parse (gen k) d ss u = Inr (ss1, u1)"
    and rest: "update_loop parse gen (k + 1) ds ss1 u1 = Inr (ss', u')"
    by (auto split: sum.splits)
  from Cons.prems(2) have fresh: "rd_domain d \<notin> rd_domain ` set ds"
    and dist: "distinct (map rd_domain ds)"
    by simp_all
  from step obtain t where t: "strptime parse (rd_mDate d) = Inr t"
    and u1: "u1 \<longleftrightarrow> u \<or> (\<exists>s\<in>set ss. domain s = rd_domain d \<and> \<not> m_date s < t)"
    by (rule merge_entry_Inr_cases)
  from Cons.IH [OF rest dist Cons.prems(3)]
  consider (later) "\<exists>s\<in>set ss'. \<exists>d\<in>set ds. rd_domain d = domain s
           \<and> (case strptime parse (rd_mDate d) of Inl e \<Rightarrow> False | Inr t \<Rightarrow> \<not> m_date s < t)"
    | (now) "u1"
    by blast
  then show ?case
  proof cases
    case later
    then show ?thesis by auto
  next
    case now
    show ?thesis
    proof (cases u)
      case True
      then show ?thesis by simp
    next
      case False
      with now u1 obtain s where s: "s \<in> set ss" "domain s = rd_domain d" "\<not> m_date s < t"
        by blast
      have "s \<in> set ss1"
        using step s(1) by (rule merge_entry_keeps) (use t s(3) in auto)
      with rest have "s \<in> set ss'"
        by (rule update_loop_keeps) (use fresh s(2) in simp)
      with s t show ?thesis
        by force
    qed
  qed
qed

lemma update_loop_returns:
  "all_parse parse ds \<Longrightarrow> \<exists>ss' u'. update_loop parse gen k ds ss u = Inr (ss', u')"
proof (induction ds arbitrary: k ss u)
  case Nil
  then show ?case by simp
next
  case (Cons d ds)
  from Cons.prems obtain t where t: "strptime parse (rd_mDate d) = Inr t"
    and rest: "all_parse parse ds"
    by (auto simp: all_parse_Cons)
  show ?case
    using Cons.IH [OF rest] by (simp add: merge_entry_parsed [OF t])
qed

lemma all_parse_json_loads:
  "all_parse parse (json_loads js) \<longleftrightarrow> (\<forall>j\<in>set js. parse (js_mDate j) \<noteq> None)"
  by (auto simp: all_parse_def json_loads_def json_loads_entry_def strptime_def split: option.splits)

lemma rd_domain_json_loads: "map rd_domain (json_loads js) = map js_domain js"
  by (simp add: json_loads_def json_loads_entry_def)

lemma json_dumps_to_dict: "json_dumps (map (to_dict fmt) ss) = Inr (map (to_json fmt) ss)"
  by (induction ss) (simp_all add: json_dumps_entry_def to_dict_def to_json_def)

lemma json_loads_to_json: "json_loads (map (to_json fmt) ss) = map (to_dict fmt) ss"
  by (simp add: json_loads_def json_loads_entry_def to_dict_def to_json_def)

lemma decrypt_encrypt: "decrypt password (encrypt password x) = Inr x"
  by (simp add: decrypt_def encrypt_def)

lemma export_loop_unchanged:
  "\<forall>d\<in>set rd. rd_deleted d \<noteq> Some True \<and> rd_domain d \<in> rd_domain ` set sl \<Longrightarrow>
   export_loop parse now k rd sl = Inr sl"
  by (induction rd arbitrary: k) auto

lemma update_loop_own_export:
  assumes "one_per_domain ss"
    and "\<forall>s\<in>set ss. \<exists>t. parse (fmt (m_date s)) = Some t \<and> t \<le> m_date s"
  shows "set xs \<subseteq> set ss \<Longrightarrow>
         update_loop parse gen k (map (to_dict fmt) xs) ss u = Inr (ss, u \<or> xs \<noteq> [])"
proof (induction xs arbitrary: k u)
  case Nil
  then show ?case by simp
next
  case (Cons x xs)
  then have x: "x \<in> set ss" and xs: "set xs \<subseteq> set ss"
    by simp_all
  from assms(2) x obtain t where t: "parse (fmt (m_date x)) = Some t" and le: "t \<le> m_date x"
    by blast
  have par: "strptime parse (rd_mDate (to_dict fmt x)) = Inr t"
    using t by (simp add: strptime_def to_dict_def)
  have dom: "rd_domain (to_dict fmt x) = domain x"
    by (simp add: to_dict_def)
  have step: "merge_entry parse (gen k) (to_dict fmt x) ss u = Inr (ss, True)"
    using assms(1) x dom [symmetric] par le by (rule merge_entry_local_wins)
  show ?case
    using Cons.IH [OF xs, of "k + 1" True] step by simp
qed

lemma all_parse_to_dict:
  "\<forall>s\<in>set ss. \<exists>t. parse (fmt (m_date s)) = Some t \<and> t \<le> m_date s \<Longrightarrow>
   all_parse parse (map (to_dict fmt) ss)"
  by (auto simp: all_parse_def strptime_def to_dict_def)

section \<open>Evaluation of the datetime instance\<close>

lemma iso_2020_01_01: "iso_parse ''2020-01-01T00:00:00'' = Some 20200101000000000000"
  by (simp add: iso_parse_def days_in_month_def)

lemma iso_2020_03_01: "iso_parse ''2020-03-01T12:00:00'' = Some 20200301120000000000"
  by (simp add: iso_parse_def days_in_month_def)

lemma iso_2021_06_01: "iso_parse ''2021-06-01T00:00:00'' = Some 20210601000000000000"
  by (simp add: iso_parse_def days_in_month_def)

lemma parse_2020_01_01:
  "strptime iso_parse (PyStr ''2020-01-01T00:00:00'') = Inr 20200101000000000000"
  by (simp add: strptime_def iso_2020_01_01)

lemma parse_2020_03_01:
  "strptime iso_parse (PyStr ''2020-03-01T12:00:00'') = Inr 20200301120000000000"
  by (simp add: strptime_def iso_2020_03_01)

lemma parse_2021_06_01:
  "strptime iso_parse (PyStr ''2021-06-01T00:00:00'') = Inr 20210601000000000000"
  by (simp add: strptime_def iso_2021_06_01)

lemma format_ex_a: "iso_format (m_date ex_a) = ''2020-01-01T00:00:00''"
  by (simp add: ex_a_def iso_format_def four_digits_def two_digits_def digit_char_def)

lemma format_ex_b: "iso_format (m_date ex_b) = ''2020-03-01T12:00:00''"
  by (simp add: ex_b_def iso_format_def four_digits_def two_digits_def digit_char_def)

section \<open>The claims\<close>

text \<open>
  Claim C1: the blob of \<open>get_export_data\<close>, fed into \<open>update_from_export_data\<close> on a second
  store with an identical collection, returns false and leaves both collections equal.

  As stated the claim fails: a date that is not strictly newer than the local one sets
  \<open>update_remote\<close> (lines 181 to 183 and 196 to 197), so the import of a store's own export
  returns true as soon as the store has one setting.
\<close>

theorem own_export_reports_export_needed:
  "get_export_data iso_parse iso_format ex_now ''pw'' ex_one_a = (Inr ex_blob_a, ex_one_a)
   \<and> update_from_export_data iso_parse ex_gen ''pw'' ex_blob_a ex_one_a =
       (Inr True, ex_one_a\<lparr>remote_data := Some [to_dict iso_format ex_a]\<rparr>)"
proof -
  have "get_export_data iso_parse iso_format ex_now ''pw'' ex_one_a = (Inr ex_blob_a, ex_one_a)"
    by (simp add: get_export_data_def get_settings_as_list_def ex_one_a_def to_dict_def
          json_dumps_entry_def encrypt_def ex_blob_a_def format_ex_a)
      (simp add: ex_a_def)
  moreover have "update_from_export_data iso_parse ex_gen ''pw'' ex_blob_a ex_one_a =
       (Inr True, ex_one_a\<lparr>remote_data := Some [to_dict iso_format ex_a]\<rparr>)"
    by (simp add: update_from_export_data_def Let_def decrypt_def ex_blob_a_def json_loads_def
          json_loads_entry_def ex_one_a_def ex_a_def merge_entry_def update_scan.simps
          parse_2020_01_01 to_dict_def iso_format_def four_digits_def two_digits_def
          digit_char_def)
  ultimately show ?thesis
    by simp
qed

text \<open>
  Claim C1, amended: let the store have at most one setting per domain, let its retained
  remote data (if any) hold no tombstone and only domains that the store has, and let no
  date move forward when it is formatted and parsed again. Then the export succeeds and
  leaves the store as it is, and the import of the blob into a second store with the same
  collection leaves that collection as it is, hence equal to the first store's, and
  returns true exactly when the collection is not empty.
\<close>

theorem export_import_round_trip:
  assumes "one_per_domain (settings S)"
    and "case remote_data S of
           None \<Rightarrow> True
         | Some rd \<Rightarrow> \<forall>d\<in>set rd. rd_deleted d \<noteq> Some True
                              \<and> rd_domain d \<in> domain ` set (settings S)"
    and "\<forall>s\<in>set (settings S). \<exists>t. parse (fmt (m_date s)) = Some t \<and> t \<le> m_date s"
    and "settings S2 = settings S"
  shows "\<exists>blob. get_export_data parse fmt now password S = (Inr blob, S)
           \<and> update_from_export_data parse gen password blob S2 =
               (Inr (settings S \<noteq> []),
                S2\<lparr>remote_data := Some (map (to_dict fmt) (settings S))\<rparr>)"
proof -
  let ?ss = "settings S"
  let ?sl = "map (to_dict fmt) ?ss"
  let ?blob = "encrypt password (map (to_json fmt) ?ss)"
  have doms: "rd_domain ` set ?sl = domain ` set ?ss"
    by (force simp: to_dict_def)
  have list: "(case remote_data S of
                 None \<Rightarrow> Inr ?sl
               | Some rd \<Rightarrow> if rd \<noteq> [] then export_loop parse now 0 rd ?sl else Inr ?sl) = Inr ?sl"
  proof (cases "remote_data S")
    case None
    then show ?thesis by simp
  next
    case (Some rd)
    with assms(2) have "\<forall>d\<in>set rd. rd_deleted d \<noteq> Some True \<and> rd_domain d \<in> rd_domain ` set ?sl"
      using doms by simp
    then have "export_loop parse now 0 rd ?sl = Inr ?sl"
      by (rule export_loop_unchanged)
    with Some show ?thesis by simp
  qed
  have export: "get_export_data parse fmt now password S = (Inr ?blob, S)"
    by (simp add: get_export_data_def get_settings_as_list_def list json_dumps_to_dict)
  have loop: "update_loop parse gen 0 ?sl ?ss False = Inr (?ss, ?ss \<noteq> [])"
    using update_loop_own_export [OF assms(1,3), of ?ss gen 0 False] by simp
  have ap: "all_parse parse ?sl"
    using assms(3) by (rule all_parse_to_dict)
  have pass: "stale_loop parse ?ss ?sl (?ss \<noteq> []) = Inr (?ss \<noteq> [])"
  proof (cases "?ss = []")
    case True
    then show ?thesis by simp
  next
    case False
    then show ?thesis by (simp add: stale_loop_parsed [OF ap])
  qed
  have "update_from_export_data parse gen password ?blob S2 =
          (Inr (?ss \<noteq> []), S2\<lparr>remote_data := Some ?sl\<rparr>)"
    using loop pass assms(4)
    by (simp add: update_from_export_data_def decrypt_encrypt json_loads_to_json)
  with export show ?thesis
    by blast
qed

theorem export_import_round_trip_witness:
  "one_per_domain (settings ex_two)
   \<and> remote_data ex_two = None
   \<and> iso_parse (iso_format (m_date ex_a)) = Some 20200101000000000000
   \<and> 20200101000000000000 \<le> m_date ex_a
   \<and> iso_parse (iso_format (m_date ex_b)) = Some 20200301120000000000
   \<and> 20200301120000000000 \<le> m_date ex_b
   \<and> settings ex_two_copy = settings ex_two
   \<and> (\<exists>blob. get_export_data iso_parse iso_format ex_now ''pw'' ex_two = (Inr blob, ex_two)
         \<and> update_from_export_data iso_parse ex_gen ''pw'' blob ex_two_copy =
             (Inr (settings ex_two \<noteq> []),
              ex_two_copy\<lparr>remote_data := Some (map (to_dict iso_format) (settings ex_two))\<rparr>))"
proof -
  have h1: "one_per_domain (settings ex_two)"
    by (simp add: ex_two_def one_per_domain_ex_two)
  have none: "remote_data ex_two = None"
    by (simp add: ex_two_def)
  then have h2: "case remote_data ex_two of
              None \<Rightarrow> True
            | Some rd \<Rightarrow> \<forall>d\<in>set rd. rd_deleted d \<noteq> Some True
                              \<and> rd_domain d \<in> domain ` set (settings ex_two)"
    by simp
  have a: "iso_parse (iso_format (m_date ex_a)) = Some 20200101000000000000"
    by (simp add: format_ex_a iso_2020_01_01)
  have a': "20200101000000000000 \<le> m_date ex_a"
    by (simp add: ex_a_def)
  have b: "iso_parse (iso_format (m_date ex_b)) = Some 20200301120000000000"
    by (simp add: format_ex_b iso_2020_03_01)
  have b': "20200301120000000000 \<le> m_date ex_b"
    by (simp add: ex_b_def)
  have h3: "\<forall>s\<in>set (settings ex_two).
              \<exists>t. iso_parse (iso_format (m_date s)) = Some t \<and> t \<le> m_date s"
    using a a' b b' by (simp add: ex_two_def)
  have h4: "settings ex_two_copy = settings ex_two"
    by (simp add: ex_two_def ex_two_copy_def)
  from h1 none a a' b b' h4
    export_import_round_trip [OF h1 h2 h3 h4, where now = ex_now and password = "''pw''"
      and gen = ex_gen]
  show ?thesis
    by blast
qed

text \<open>
  Claim C2: for an incoming entry whose domain has no record in the collection, the merge
  rule inserts a new record unless the entry is a tombstone, which is dropped. The code
  does not look at \<open>'deleted'\<close> when no setting was found (lines 186 to 190): importing the
  single tombstone \<open>ex_tombstone_a\<close> into the empty store inserts a record for its
  domain, marked synced.
\<close>

theorem tombstone_for_unknown_domain_inserted:
  "update_from_export_data iso_parse ex_gen ''pw'' (Encrypted ''pw'' [ex_tombstone_a]) ex_empty =
     (Inr True,
      \<lparr>settings_file = ex_path,
       remote_data = Some [\<lparr>rd_domain = ''a.com'', rd_mDate = PyStr ''2021-06-01T00:00:00'',
                            rd_deleted = Some True, rd_fields = None\<rparr>],
       settings = [\<lparr>domain = ''a.com'', m_date = 20210601000000000000, synced = True,
                    policy = ''default''\<rparr>]\<rparr>)"
  by (simp add: update_from_export_data_def Let_def decrypt_def json_loads_def
        json_loads_entry_def ex_tombstone_a_def ex_empty_def merge_entry_def update_scan.simps load_from_dict_def
        parse_2021_06_01 set_synced_def PasswordSetting_new_def ex_gen_def ex_default_def)

text \<open>
  Claim C3: in \<open>get_export_data\<close> a retained tombstone replaces an outgoing entry only when
  the entry has the tombstone's domain and an older date. The condition of line 144
  compares the entry's domain with itself: with the only setting \<open>b.com\<close> and a retained,
  newer tombstone for \<open>a.com\<close>, the exported list is the tombstone alone, and the entry
  of \<open>b.com\<close> is gone.
\<close>

theorem tombstone_replaces_other_domain:
  "get_export_data iso_parse iso_format ex_now ''pw'' ex_only_b =
     (Inr (Encrypted ''pw'' [ex_tombstone_a]), ex_only_b)"
  by (simp add: get_export_data_def get_settings_as_list_def ex_only_b_def to_dict_def
        format_ex_b parse_2020_03_01 parse_2021_06_01 ex_remote_tombstone_def
        json_dumps_entry_def encrypt_def ex_tombstone_a_def)

text \<open>
  Claim C4: every entry of the exported payload, also a synthesized tombstone, has a string
  \<open>mDate\<close> in ISO format, and the payload serializes. Line 151 stores the \<open>datetime\<close> object
  itself: when the remote data has a domain that the store no longer has, a tombstone is
  synthesized and \<open>json.dumps\<close> raises a TypeError, so nothing is exported.
\<close>

theorem synthesized_tombstone_not_serializable:
  "get_export_data iso_parse iso_format ex_now ''pw'' ex_deleted_locally =
     (Inl TypeError, ex_deleted_locally)"
  by (simp add: get_export_data_def get_settings_as_list_def ex_deleted_locally_def to_dict_def
        ex_remote_live_def json_dumps_entry_def ex_b_def)

text \<open>
  Claim C5: when the collection, with at most one setting per domain, has the setting \<open>L\<close>
  for the domain of the incoming entry \<open>I\<close> and the date of \<open>I\<close> is strictly newer, then
  after the merge step of the import the setting of that domain has the date and the
  opaque fields of \<open>I\<close> and is marked synced, or, when \<open>I\<close> is a tombstone, no setting has
  that domain. The flag \<open>update_remote\<close> is left as it was.
\<close>

theorem incoming_newer_wins:
  assumes "one_per_domain ss" and "L \<in> set ss" and "domain L = rd_domain I"
    and "strptime parse (rd_mDate I) = Inr t" and "m_date L < t"
  shows "\<exists>ss'. merge_entry parse dflt I ss u = Inr (ss', u) \<and> one_per_domain ss' \<and>
           (if rd_deleted I = Some True
            then \<forall>s\<in>set ss'. domain s \<noteq> rd_domain I
            else find (\<lambda>s. domain s = rd_domain I) ss' =
                   Some (L\<lparr>m_date := t,
                           policy := (case rd_fields I of None \<Rightarrow> policy L | Some p \<Rightarrow> p),
                           synced := True\<rparr>))"
proof -
  have only: "s = L" if "s \<in> set ss" and "domain s = rd_domain I" for s
    using unique_domain [OF assms(1,2) that(1)] that(2) assms(3) by simp
  have ex: "\<exists>s\<in>set ss. domain s = rd_domain I"
    using assms(2,3) by blast
  have flag: "\<not> (\<exists>s\<in>set ss. domain s = rd_domain I \<and> \<not> m_date s < t)"
    using only assms(5) by blast
  have "(u \<or> (\<exists>s\<in>set ss. domain s = rd_domain I \<and> \<not> m_date s < t)) = u"
    using flag by blast
  then have res: "merge_entry parse dflt I ss u = Inr (merged t I ss, u)"
    using ex by (simp add: merge_entry_parsed [OF assms(4)])
  have inv: "one_per_domain (merged t I ss)"
    using assms(1) by (rule one_per_domain_merged)
  show ?thesis
  proof (cases "rd_deleted I = Some True")
    case True
    have "\<forall>s\<in>set (merged t I ss). domain s \<noteq> rd_domain I"
      using True only assms(5) by (auto simp: merged_def newer_def)
    with res inv True show ?thesis
      by simp
  next
    case False
    let ?f = "\<lambda>s. if newer t I s then overwrite t I True s else s"
    have "find (\<lambda>s. domain s = domain L) (map ?f ss) = Some (?f L)"
      using assms(1,2) by (rule find_domain_map) (simp add: domain_overwrite_if)
    moreover have "?f L = L\<lparr>m_date := t,
        policy := (case rd_fields I of None \<Rightarrow> policy L | Some p \<Rightarrow> p), synced := True\<rparr>"
      using assms(3,5) by (simp add: newer_def overwrite_def)
    ultimately have "find (\<lambda>s. domain s = rd_domain I) (merged t I ss) =
        Some (L\<lparr>m_date := t,
               policy := (case rd_fields I of None \<Rightarrow> policy L | Some p \<Rightarrow> p), synced := True\<rparr>)"
      using False assms(3) by (simp add: merged_def)
    with res inv False show ?thesis
      by simp
  qed
qed

theorem incoming_newer_wins_witness:
  "one_per_domain [ex_a, ex_b] \<and> ex_a \<in> set [ex_a, ex_b] \<and> domain ex_a = rd_domain ex_live_a
   \<and> strptime iso_parse (rd_mDate ex_live_a) = Inr 20210601000000000000
   \<and> m_date ex_a < 20210601000000000000
   \<and> (\<exists>ss'. merge_entry iso_parse ex_default ex_live_a [ex_a, ex_b] False = Inr (ss', False)
         \<and> one_per_domain ss'
         \<and> find (\<lambda>s. domain s = ''a.com'') ss' =
             Some \<lparr>domain = ''a.com'', m_date = 20210601000000000000, synced = True,
                   policy = ''length 20''\<rparr>)"
proof -
  have h1: "one_per_domain [ex_a, ex_b]"
    by (rule one_per_domain_ex_two)
  have h2: "ex_a \<in> set [ex_a, ex_b]"
    by simp
  have h3: "domain ex_a = rd_domain ex_live_a"
    by (simp add: ex_a_def ex_live_a_def)
  have h4: "strptime iso_parse (rd_mDate ex_live_a) = Inr 20210601000000000000"
    by (simp add: ex_live_a_def parse_2021_06_01)
  have h5: "m_date ex_a < 20210601000000000000"
    by (simp add: ex_a_def)
  from incoming_newer_wins [OF h1 h2 h3 h4 h5, of ex_default False]
  have "\<exists>ss'. merge_entry iso_parse ex_default ex_live_a [ex_a, ex_b] False = Inr (ss', False)
         \<and> one_per_domain ss'
         \<and> find (\<lambda>s. domain s = ''a.com'') ss' =
             Some \<lparr>domain = ''a.com'', m_date = 20210601000000000000, synced = True,
                   policy = ''length 20''\<rparr>"
    by (simp add: ex_live_a_def ex_a_def)
  with h1 h2 h3 h4 h5 show ?thesis
    by blast
qed

text \<open>
  Claim C6: when the collection, with at most one setting per domain, has the setting \<open>L\<close>
  for the domain of the incoming entry \<open>I\<close> and the date of \<open>I\<close> is not newer (older or
  equal), the merge step of the import and that of \<open>load_settings_from_file\<close> leave the
  whole collection as it was, \<open>L\<close> with all its fields and its synced flag included; the
  import sets \<open>update_remote\<close>.
\<close>

theorem local_not_older_wins:
  assumes "one_per_domain ss" and "L \<in> set ss" and "domain L = rd_domain I"
    and "strptime parse (rd_mDate I) = Inr t" and "t \<le> m_date L"
  shows "merge_entry parse dflt I ss u = Inr (ss, True)
         \<and> load_entry parse dflt syn I ss = Inr ss"
  using assms by (simp add: merge_entry_local_wins load_entry_local_wins)

theorem local_not_older_wins_witness:
  "one_per_domain [ex_a, ex_b] \<and> ex_a \<in> set [ex_a, ex_b] \<and> domain ex_a = rd_domain ex_old_a
   \<and> strptime iso_parse (rd_mDate ex_old_a) = Inr 20200101000000000000
   \<and> 20200101000000000000 \<le> m_date ex_a
   \<and> merge_entry iso_parse ex_default ex_old_a [ex_a, ex_b] False = Inr ([ex_a, ex_b], True)
   \<and> load_entry iso_parse ex_default [] ex_old_a [ex_a, ex_b] = Inr [ex_a, ex_b]"
proof -
  have h1: "one_per_domain [ex_a, ex_b]"
    by (rule one_per_domain_ex_two)
  have h2: "ex_a \<in> set [ex_a, ex_b]"
    by simp
  have h3: "domain ex_a = rd_domain ex_old_a"
    by (simp add: ex_a_def ex_old_a_def)
  have h4: "strptime iso_parse (rd_mDate ex_old_a) = Inr 20200101000000000000"
    by (simp add: ex_old_a_def parse_2020_01_01)
  have h5: "20200101000000000000 \<le> m_date ex_a"
    by (simp add: ex_a_def)
  from h1 h2 h3 h4 h5 local_not_older_wins [OF h1 h2 h3 h4 h5, of ex_default False "[]"]
  show ?thesis
    by blast
qed

text \<open>
  Claim C7: \<open>update_from_export_data\<close> returns true if and only if, after the merge, some
  setting's domain has no entry in the payload or some setting is not strictly older than
  the entry of its domain.

  As stated the claim fails for a payload with two entries of one domain: the first, not
  newer than the local setting, sets \<open>update_remote\<close> in the merge loop (line 183); the
  second, a newer tombstone, removes the setting. The import returns true although no
  setting is left.
\<close>

theorem stale_flag_outlives_setting:
  "update_from_export_data iso_parse ex_gen ''pw'' (Encrypted ''pw'' ex_json_dup) ex_one_a =
     (Inr True, ex_after_dup)
   \<and> \<not> export_needed iso_parse (settings ex_after_dup) ex_remote_dup"
proof -
  have "update_from_export_data iso_parse ex_gen ''pw'' (Encrypted ''pw'' ex_json_dup) ex_one_a =
          (Inr True, ex_after_dup)"
    by (simp add: update_from_export_data_def Let_def decrypt_def ex_json_dup_def json_loads_def
          json_loads_entry_def ex_tombstone_a_def ex_one_a_def ex_a_def merge_entry_def
          update_scan.simps parse_2020_01_01 parse_2021_06_01 pop_def ex_after_dup_def
          ex_remote_dup_def ex_remote_tombstone_def)
  moreover have "\<not> export_needed iso_parse (settings ex_after_dup) ex_remote_dup"
    by (simp add: export_needed_def ex_after_dup_def)
  ultimately show ?thesis
    by simp
qed

text \<open>
  Claim C7, amended: for a payload that decrypts, has at most one entry per domain and
  only dates that \<open>strptime\<close> accepts, \<open>update_from_export_data\<close> returns, and it returns
  true if and only if, after the merge, some setting's domain has no entry in the payload
  or some setting is not strictly older than the entry of its domain.
\<close>

theorem update_returns_export_needed:
  assumes "decrypt password data = Inr js" and "distinct (map js_domain js)"
    and "\<forall>j\<in>set js. parse (js_mDate j) \<noteq> None"
  shows "\<exists>m'. update_from_export_data parse gen password data m =
                 (Inr (export_needed parse (settings m') (json_loads js)), m')
              \<and> remote_data m' = Some (json_loads js)"
proof -
  let ?rd = "json_loads js"
  have ap: "all_parse parse ?rd"
    using assms(3) by (simp add: all_parse_json_loads)
  have dist: "distinct (map rd_domain ?rd)"
    using assms(2) by (simp add: rd_domain_json_loads)
  obtain ss' u' where loop: "update_loop parse gen 0 ?rd (settings m) False = Inr (ss', u')"
    using update_loop_returns [OF ap] by blast
  have "u' \<Longrightarrow> export_needed parse ss' ?rd"
    using update_loop_flag [OF loop dist] by (auto simp: export_needed_def)
  then have res: "(u' \<or> export_needed parse ss' ?rd) = export_needed parse ss' ?rd"
    by blast
  let ?m' = "m\<lparr>remote_data := Some ?rd, settings := ss'\<rparr>"
  have "update_from_export_data parse gen password data m =
          (Inr (export_needed parse (settings ?m') ?rd), ?m')"
    using assms(1) loop res by (simp add: update_from_export_data_def stale_loop_parsed [OF ap])
  then show ?thesis
    by (intro exI [of _ ?m']) simp
qed

theorem update_returns_export_needed_witness:
  "decrypt ''pw'' (Encrypted ''pw'' [ex_tombstone_a]) = Inr [ex_tombstone_a]
   \<and> distinct (map js_domain [ex_tombstone_a])
   \<and> iso_parse (js_mDate ex_tombstone_a) = Some 20210601000000000000
   \<and> (\<exists>m'. update_from_export_data iso_parse ex_gen ''pw'' (Encrypted ''pw'' [ex_tombstone_a])
               ex_two =
             (Inr (export_needed iso_parse (settings m') (json_loads [ex_tombstone_a])), m')
           \<and> remote_data m' = Some (json_loads [ex_tombstone_a]))"
proof -
  have h1: "decrypt ''pw'' (Encrypted ''pw'' [ex_tombstone_a]) = Inr [ex_tombstone_a]"
    by (simp add: decrypt_def)
  have h2: "distinct (map js_domain [ex_tombstone_a])"
    by simp
  have p: "iso_parse (js_mDate ex_tombstone_a) = Some 20210601000000000000"
    by (simp add: ex_tombstone_a_def iso_2021_06_01)
  then have h3: "\<forall>j\<in>set [ex_tombstone_a]. iso_parse (js_mDate j) \<noteq> None"
    by simp
  from h1 h2 p
    update_returns_export_needed [OF h1 h2 h3, where gen = ex_gen and m = ex_two]
  show ?thesis
    by blast
qed

text \<open>
  Claim C8: \<open>get_setting\<close>, \<open>save_setting\<close>, \<open>delete_setting\<close>, \<open>load_settings_from_file\<close> and
  \<open>update_from_export_data\<close> each take a collection with at most one setting per domain
  to a collection with at most one setting per domain, also when they raise.
\<close>

theorem one_per_domain_preserved:
  assumes "one_per_domain (settings m)"
  shows "one_per_domain (settings (snd (get_setting dflt dname m)))
       \<and> one_per_domain (settings (save_setting setting m))
       \<and> one_per_domain (settings (delete_setting setting m))
       \<and> one_per_domain (settings (snd (load_settings_from_file parse gen fs password m)))
       \<and> one_per_domain (settings (snd (update_from_export_data parse gen password data m)))"
  using assms
  by (simp add: one_per_domain_get_setting one_per_domain_save_setting
        one_per_domain_delete_setting one_per_domain_load_settings_from_file
        one_per_domain_update_from_export_data)

theorem one_per_domain_preserved_witness:
  "one_per_domain (settings ex_two)
   \<and> one_per_domain (settings (snd (get_setting ex_default ''c.com'' ex_two)))
   \<and> one_per_domain (settings (save_setting ex_a ex_two))
   \<and> one_per_domain (settings (delete_setting ex_a ex_two))
   \<and> one_per_domain
        (settings (snd (load_settings_from_file iso_parse ex_gen ex_fs_saved ''pw'' ex_two)))
   \<and> one_per_domain
        (settings (snd (update_from_export_data iso_parse ex_gen ''pw'' ex_blob_a ex_two)))"
proof -
  have h: "one_per_domain (settings ex_two)"
    by (simp add: ex_two_def one_per_domain_ex_two)
  from h
    one_per_domain_preserved [OF h, where dflt = ex_default and dname = "''c.com''"
      and setting = ex_a and parse = iso_parse and gen = ex_gen and fs = ex_fs_saved
      and password = "''pw''" and data = ex_blob_a]
  show ?thesis
    by simp
qed

text \<open>
  Claim C9: when the settings file does not exist, \<open>load_settings_from_file\<close> raises no
  error and leaves the manager, in particular its collection, as it was, for every
  password.
\<close>

theorem load_missing_file:
  "fs (settings_file m) = None \<Longrightarrow> load_settings_from_file parse gen fs password m = (Inr (), m)"
  by (simp add: load_settings_from_file_def)

theorem load_missing_file_witness:
  "ex_fs (settings_file ex_only_b) = None
   \<and> load_settings_from_file iso_parse ex_gen ex_fs ''pw'' ex_only_b = (Inr (), ex_only_b)"
proof -
  have missing: "ex_fs (settings_file ex_only_b) = None"
    by (simp add: ex_fs_def ex_only_b_def ex_path_def)
  from missing load_missing_file [of ex_fs ex_only_b iso_parse ex_gen "''pw''"] show ?thesis
    by simp
qed

text \<open>
  Claim C10: \<open>get_export_data\<close> leaves the store as it was: the settings with their fields,
  flags and order, and the retained remote data, whether it returns a blob or raises.
\<close>

theorem get_export_data_frame:
  "snd (get_export_data parse fmt now password m) = m"
  by (simp add: get_export_data_def get_settings_as_list_def split: sum.splits option.splits)

theorem get_export_data_frame_witness:
  "snd (get_export_data iso_parse iso_format ex_now ''pw'' ex_only_b) = ex_only_b"
  using get_export_data_frame [of iso_parse iso_format ex_now "''pw''" ex_only_b] by simp

end
